theory Spec2Isabelle
  imports Main "HOL-Library.Word"
begin

unbundle bit_operations_syntax

section \<open>The CHIP-8 machine state (chip-8.hpp)\<close>

type_synonym uint8 = "8 word"
type_synonym uint16 = "16 word"

definition CHIP8_MEMORY_SIZE :: nat where "CHIP8_MEMORY_SIZE = 4096"
definition CHIP8_FONT_BUFFER_SIZE :: nat where "CHIP8_FONT_BUFFER_SIZE = 80"
definition CHIP8_FONT_START_ADDRESS_IN_MEMORY :: nat where
  "CHIP8_FONT_START_ADDRESS_IN_MEMORY = 0x50"
definition CHIP8_REGISTERS_COUNT :: nat where "CHIP8_REGISTERS_COUNT = 16"
definition CHIP8_STACK_SIZE :: nat where "CHIP8_STACK_SIZE = 16"
definition CHIP8_SCREEN_WIDTH :: nat where "CHIP8_SCREEN_WIDTH = 64"
definition CHIP8_SCREEN_HEIGHT :: nat where "CHIP8_SCREEN_HEIGHT = 32"
definition CHIP8_VIDEO_BUFFER_SIZE :: nat where
  "CHIP8_VIDEO_BUFFER_SIZE = CHIP8_SCREEN_WIDTH * CHIP8_SCREEN_HEIGHT"
definition CHIP8_START_PROGRAM_ADDRESS :: nat where "CHIP8_START_PROGRAM_ADDRESS = 0x200"
definition CHIP8_KEYBOARD_SIZE :: nat where "CHIP8_KEYBOARD_SIZE = 16"

text \<open>
  The data members of class \<open>Chip8\<close>.  Every C array is a list; its declared size is
  the invariant \<open>valid_state\<close> below.
\<close>

record chip8 =
  loaded_rom_size :: uint16
  draw_flag :: bool
  memory :: "uint8 list"
  V :: "uint8 list"
  I :: uint16
  pc :: uint16
  stack :: "uint16 list"
  sp :: uint8
  delayTimer :: uint8
  soundTimer :: uint8
  gfx :: "uint8 list"
  key :: "uint8 list"

definition valid_state :: "chip8 \<Rightarrow> bool" where
  "valid_state s \<longleftrightarrow>
     length (memory s) = CHIP8_MEMORY_SIZE \<and>
     length (V s) = CHIP8_REGISTERS_COUNT \<and>
     length (stack s) = CHIP8_STACK_SIZE \<and>
     length (gfx s) = CHIP8_VIDEO_BUFFER_SIZE \<and>
     length (key s) = CHIP8_KEYBOARD_SIZE"

definition sprite_font :: "uint8 list" where
  "sprite_font =
    [0xF0, 0x90, 0x90, 0x90, 0xF0,
     0x20, 0x60, 0x20, 0x20, 0x70,
     0xF0, 0x10, 0xF0, 0x80, 0xF0,
     0xF0, 0x10, 0xF0, 0x10, 0xF0,
     0x90, 0x90, 0xF0, 0x10, 0x10,
     0xF0, 0x80, 0xF0, 0x10, 0xF0,
     0xF0, 0x80, 0xF0, 0x90, 0xF0,
     0xF0, 0x10, 0x20, 0x40, 0x40,
     0xF0, 0x90, 0xF0, 0x90, 0xF0,
     0xF0, 0x90, 0xF0, 0x10, 0xF0,
     0xF0, 0x90, 0xF0, 0x90, 0x90,
     0xE0, 0x90, 0xE0, 0x90, 0xE0,
     0xF0, 0x80, 0x80, 0x80, 0xF0,
     0xE0, 0x90, 0x90, 0x90, 0xE0,
     0xF0, 0x80, 0xF0, 0x80, 0xF0,
     0xF0, 0x80, 0xF0, 0x80, 0x80]"

text \<open>
  What the program prints on \<open>std::cerr\<close>, one constructor per message; \<open>Silent\<close>
  when nothing is printed.
\<close>

datatype report =
    Silent
  | PcOutOfRange
  | StackUnderflow
  | StackOverflow
  | UnknownInstruction
  | IExceededRange
  | VxOutOfFontRange
  | IPlusXExceededRange
  | KeyIndexOutOfRange
  | ScreenCoordinatesOutOfRange

text \<open>
  An index past the end of a C array is undefined behaviour; the model stops there with
  \<open>OutOfBounds\<close> instead of inventing a value.
\<close>

datatype fault = OutOfBounds

text \<open>How a \<open>case\<close> of the opcode switch leaves: \<open>break\<close> (on to the timers) or \<open>return\<close>.\<close>

datatype ctl = Break | Return

section \<open>Construction and the small accessors (chip-8.cpp)\<close>

definition copy_sprite_font_into_memory :: "chip8 \<Rightarrow> chip8" where
  "copy_sprite_font_into_memory s =
     s\<lparr>memory := fold (\<lambda>i m. m[CHIP8_FONT_START_ADDRESS_IN_MEMORY + i := sprite_font ! i])
                     [0..<CHIP8_FONT_BUFFER_SIZE] (memory s)\<rparr>"

definition Chip8 :: chip8 where
  "Chip8 = copy_sprite_font_into_memory
     \<lparr>loaded_rom_size = 0, draw_flag = False,
      memory = replicate CHIP8_MEMORY_SIZE 0,
      V = replicate CHIP8_REGISTERS_COUNT 0,
      I = 0, pc = of_nat CHIP8_START_PROGRAM_ADDRESS,
      stack = replicate CHIP8_STACK_SIZE 0,
      sp = 0, delayTimer = 0, soundTimer = 0,
      gfx = replicate CHIP8_VIDEO_BUFFER_SIZE 0,
      key = replicate CHIP8_KEYBOARD_SIZE 0\<rparr>"

definition clear_video_buffer :: "chip8 \<Rightarrow> chip8" where
  "clear_video_buffer s = s\<lparr>gfx := replicate CHIP8_VIDEO_BUFFER_SIZE 0\<rparr>"

definition get_screen_pixel :: "int \<Rightarrow> int \<Rightarrow> chip8 \<Rightarrow> report \<times> uint8" where
  "get_screen_pixel x y s =
     (if x < 0 \<or> x \<ge> int CHIP8_SCREEN_WIDTH \<or> y < 0 \<or> y \<ge> int CHIP8_SCREEN_HEIGHT
      then (ScreenCoordinatesOutOfRange, 0)
      else (Silent, gfx s ! nat (y * 64 + x)))"

definition pc_instruction_overflow :: "chip8 \<Rightarrow> bool" where
  "pc_instruction_overflow s \<longleftrightarrow>
     unat (pc s) \<ge> CHIP8_START_PROGRAM_ADDRESS + unat (loaded_rom_size s)"

definition set_key :: "uint8 \<Rightarrow> uint8 \<Rightarrow> chip8 \<Rightarrow> report \<times> chip8" where
  "set_key key_index val s =
     (if unat key_index < CHIP8_KEYBOARD_SIZE
      then (Silent, s\<lparr>key := (key s)[unat key_index := val]\<rparr>)
      else (KeyIndexOutOfRange, s))"

definition is_screen_ready_to_redraw :: "chip8 \<Rightarrow> bool" where
  "is_screen_ready_to_redraw s = draw_flag s"

definition play_sound :: "chip8 \<Rightarrow> bool" where
  "play_sound s \<longleftrightarrow> soundTimer s > 0"

text \<open>
  \<open>render_screen\<close>: the console dump is output only; the state change is the reset of
  \<open>draw_flag\<close>, and only when the flag was set.
\<close>

definition render_screen :: "bool \<Rightarrow> chip8 \<Rightarrow> chip8" where
  "render_screen debug_draw_to_console s =
     (if \<not> draw_flag s then s else s\<lparr>draw_flag := False\<rparr>)"

text \<open>
  \<open>load_rom\<close>: the file is the list of its bytes, \<open>None\<close> when it cannot be opened.
  The size is stored in the 16-bit member before it is checked.
\<close>

definition load_rom :: "uint8 list option \<Rightarrow> chip8 \<Rightarrow> bool \<times> chip8" where
  "load_rom file s =
     (case file of
        None \<Rightarrow> (False, s)
      | Some bytes \<Rightarrow>
          let s1 = s\<lparr>loaded_rom_size := of_nat (length bytes)\<rparr>;
              n = unat (loaded_rom_size s1)
          in if n > CHIP8_MEMORY_SIZE - CHIP8_START_PROGRAM_ADDRESS then (False, s1)
             else (True,
                   s1\<lparr>memory := fold (\<lambda>i m. m[CHIP8_START_PROGRAM_ADDRESS + i := bytes ! i])
                                     [0..<n] (memory s1)\<rparr>))"

section \<open>Sprite compositing (draw_sprite)\<close>

text \<open>One iteration of the column loop: collision test, then XOR into the framebuffer.\<close>

definition draw_pixel :: "uint8 \<Rightarrow> uint8 \<Rightarrow> uint8 \<Rightarrow> nat \<Rightarrow> nat \<Rightarrow> chip8 \<Rightarrow> chip8" where
  "draw_pixel sprite_byte x_coord y_coord row col s =
     (let sprite_pixel = drop_bit (7 - col) sprite_byte AND 0x01;
          screen_x = (unat x_coord + col) mod 64;
          screen_y = (unat y_coord + row) mod 32;
          pixel_index = screen_y * 64 + screen_x;
          s1 = (if gfx s ! pixel_index = 1 \<and> sprite_pixel = 1
                then s\<lparr>V := (V s)[0xF := 1]\<rparr> else s)
      in s1\<lparr>gfx := (gfx s1)[pixel_index := gfx s1 ! pixel_index XOR sprite_pixel]\<rparr>)"

text \<open>The column loop \<open>for (col = 0; col < 8; ++col)\<close>.\<close>

definition draw_row :: "uint8 \<Rightarrow> uint8 \<Rightarrow> uint8 \<Rightarrow> nat \<Rightarrow> chip8 \<Rightarrow> chip8" where
  "draw_row sprite_byte x_coord y_coord row s =
     fold (draw_pixel sprite_byte x_coord y_coord row) [0..<8] s"

text \<open>
  The row loop \<open>for (row = 0; row < height; ++row)\<close> with its \<open>break\<close> at the bottom
  edge.  \<open>memory[I + row]\<close> is read unchecked in the source: past the array it is
  \<open>OutOfBounds\<close>.
\<close>

function draw_rows :: "nat \<Rightarrow> uint8 \<Rightarrow> uint8 \<Rightarrow> uint8 \<Rightarrow> chip8 \<Rightarrow> fault + chip8" where
  "draw_rows row height x_coord y_coord s =
     (if row < unat height then
        (if unat y_coord + row \<ge> 32 then Inr s
         else if unat (I s) + row \<ge> CHIP8_MEMORY_SIZE then Inl OutOfBounds
         else draw_rows (Suc row) height x_coord y_coord
                (draw_row (memory s ! (unat (I s) + row)) x_coord y_coord row s))
      else Inr s)"
  by pat_completeness auto
termination
  by (relation "measure (\<lambda>(row, height, x_coord, y_coord, s). unat height - row)") auto

declare draw_rows.simps [simp del]

definition draw_sprite :: "uint8 \<Rightarrow> uint8 \<Rightarrow> uint8 \<Rightarrow> chip8 \<Rightarrow> fault + chip8" where
  "draw_sprite x_coord y_coord height s =
     (case draw_rows 0 height (x_coord mod 64) (y_coord mod 32) (s\<lparr>V := (V s)[0xF := 0]\<rparr>) of
        Inl f \<Rightarrow> Inl f
      | Inr s' \<Rightarrow> Inr (s'\<lparr>draw_flag := True\<rparr>))"

section \<open>The interpreter step (emulate_cycle)\<close>

text \<open>The operand fields, as each \<open>case\<close> decodes them.\<close>

definition op_x :: "uint16 \<Rightarrow> uint8" where
  "op_x opcode = ucast (drop_bit 8 (opcode AND 0x0F00))"

definition op_y :: "uint16 \<Rightarrow> uint8" where
  "op_y opcode = ucast (drop_bit 4 (opcode AND 0x00F0))"

definition op_nn :: "uint16 \<Rightarrow> uint8" where
  "op_nn opcode = ucast (opcode AND 0x00FF)"

definition op_n :: "uint16 \<Rightarrow> uint8" where
  "op_n opcode = ucast (opcode AND 0x000F)"

definition op_nnn :: "uint16 \<Rightarrow> uint16" where
  "op_nnn opcode = opcode AND 0x0FFF"

definition fetch :: "chip8 \<Rightarrow> uint16" where
  "fetch s = push_bit 8 (ucast (memory s ! unat (pc s))) OR ucast (memory s ! (unat (pc s) + 1))"

text \<open>The key scan of \<open>Fx0A\<close>: the first index \<open>i\<close> from \<open>i\<close> upwards with \<open>key[i] != 0\<close>.\<close>

function scan_keys :: "nat \<Rightarrow> uint8 list \<Rightarrow> nat option" where
  "scan_keys i k =
     (if i < CHIP8_KEYBOARD_SIZE
      then (if k ! i \<noteq> 0 then Some i else scan_keys (Suc i) k)
      else None)"
  by pat_completeness auto
termination
  by (relation "measure (\<lambda>(i, k). CHIP8_KEYBOARD_SIZE - i)") auto

declare scan_keys.simps [simp del]

text \<open>Family \<open>0x0000\<close>: CLS, RET.\<close>

definition exec_0 :: "uint16 \<Rightarrow> chip8 \<Rightarrow> fault + (ctl \<times> report \<times> chip8)" where
  "exec_0 opcode s =
     (if opcode = 0x00E0 then Inr (Break, Silent, clear_video_buffer s)
      else if opcode = 0x00EE then
        (if sp s = 0 then Inr (Return, StackUnderflow, s)
         else let s1 = s\<lparr>sp := sp s - 1\<rparr> in
           if unat (sp s1) < CHIP8_STACK_SIZE
           then Inr (Break, Silent, s1\<lparr>pc := stack s1 ! unat (sp s1)\<rparr>)
           else Inl OutOfBounds)
      else Inr (Break, UnknownInstruction, s))"

text \<open>Family \<open>0x8000\<close>: the register-to-register operations.\<close>

definition exec_8 :: "uint16 \<Rightarrow> chip8 \<Rightarrow> fault + (ctl \<times> report \<times> chip8)" where
  "exec_8 opcode s =
     (let x = unat (op_x opcode); y = unat (op_y opcode); sel = opcode AND 0x000F in
      if sel = 0x0000 then Inr (Break, Silent, s\<lparr>V := (V s)[x := V s ! y]\<rparr>)
      else if sel = 0x0001 then Inr (Break, Silent, s\<lparr>V := (V s)[x := V s ! x OR V s ! y]\<rparr>)
      else if sel = 0x0002 then Inr (Break, Silent, s\<lparr>V := (V s)[x := V s ! x AND V s ! y]\<rparr>)
      else if sel = 0x0003 then Inr (Break, Silent, s\<lparr>V := (V s)[x := V s ! x XOR V s ! y]\<rparr>)
      else if sel = 0x0004 then
        (let sum = (ucast (V s ! x) :: uint16) + ucast (V s ! y);
             s1 = s\<lparr>V := (V s)[0xF := (if sum > 255 then 1 else 0)]\<rparr>
         in Inr (Break, Silent, s1\<lparr>V := (V s1)[x := ucast (sum AND 0xFF)]\<rparr>))
      else if sel = 0x0005 then
        (let s1 = s\<lparr>V := (V s)[0xF := (if V s ! x > V s ! y then 1 else 0)]\<rparr>
         in Inr (Break, Silent, s1\<lparr>V := (V s1)[x := V s1 ! x - V s1 ! y]\<rparr>))
      else if sel = 0x0006 then
        (let s1 = s\<lparr>V := (V s)[0xF := V s ! x AND 0x01]\<rparr>
         in Inr (Break, Silent, s1\<lparr>V := (V s1)[x := drop_bit 1 (V s1 ! x)]\<rparr>))
      else if sel = 0x0007 then
        (let s1 = s\<lparr>V := (V s)[0xF := (if V s ! y > V s ! x then 1 else 0)]\<rparr>
         in Inr (Break, Silent, s1\<lparr>V := (V s1)[x := V s1 ! y - V s1 ! x]\<rparr>))
      else if sel = 0x000E then
        (let s1 = s\<lparr>V := (V s)[0xF := drop_bit 7 (V s ! x AND 0x80)]\<rparr>
         in Inr (Break, Silent, s1\<lparr>V := (V s1)[x := push_bit 1 (V s1 ! x)]\<rparr>))
      else Inr (Break, UnknownInstruction, s))"

text \<open>
  Family \<open>0xE000\<close>: SKP and SKNP.  \<open>key[V[x]]\<close> is indexed by the whole byte \<open>V[x]\<close>,
  unchecked in the source.
\<close>

definition exec_E :: "uint16 \<Rightarrow> chip8 \<Rightarrow> fault + (ctl \<times> report \<times> chip8)" where
  "exec_E opcode s =
     (let x = unat (op_x opcode); sel = opcode AND 0x00FF in
      if sel = 0x009E then
        (if unat (V s ! x) < CHIP8_KEYBOARD_SIZE
         then Inr (Break, Silent, if key s ! unat (V s ! x) \<noteq> 0 then s\<lparr>pc := pc s + 2\<rparr> else s)
         else Inl OutOfBounds)
      else if sel = 0x00A1 then
        (if unat (V s ! x) < CHIP8_KEYBOARD_SIZE
         then Inr (Break, Silent, if key s ! unat (V s ! x) = 0 then s\<lparr>pc := pc s + 2\<rparr> else s)
         else Inl OutOfBounds)
      else Inr (Break, UnknownInstruction, s))"

text \<open>
  Family \<open>0xF000\<close>.  \<open>Fx33\<close> writes \<open>memory[I]\<close>, \<open>memory[I + 1]\<close>, \<open>memory[I + 2]\<close>
  unchecked in the source; \<open>Fx55\<close> and \<open>Fx65\<close> test \<open>I + x\<close> first and \<open>return\<close>.
\<close>

definition exec_F :: "uint16 \<Rightarrow> chip8 \<Rightarrow> fault + (ctl \<times> report \<times> chip8)" where
  "exec_F opcode s =
     (let x = unat (op_x opcode); sel = opcode AND 0x00FF in
      if sel = 0x0007 then Inr (Break, Silent, s\<lparr>V := (V s)[x := delayTimer s]\<rparr>)
      else if sel = 0x000A then
        (case scan_keys 0 (key s) of
           Some i \<Rightarrow> Inr (Break, Silent, s\<lparr>V := (V s)[x := of_nat i]\<rparr>)
         | None \<Rightarrow> Inr (Break, Silent, s\<lparr>pc := pc s - 2\<rparr>))
      else if sel = 0x0015 then Inr (Break, Silent, s\<lparr>delayTimer := V s ! x\<rparr>)
      else if sel = 0x0018 then Inr (Break, Silent, s\<lparr>soundTimer := V s ! x\<rparr>)
      else if sel = 0x001E then
        (let s1 = s\<lparr>I := I s + ucast (V s ! x)\<rparr> in
         if unat (I s1) \<ge> CHIP8_MEMORY_SIZE then Inr (Break, IExceededRange, s1\<lparr>I := 0\<rparr>)
         else Inr (Break, Silent, s1))
      else if sel = 0x0029 then
        (if unat (V s ! x) \<ge> 16 then Inr (Break, VxOutOfFontRange, s\<lparr>I := 0\<rparr>)
         else Inr (Break, Silent,
                   s\<lparr>I := of_nat (CHIP8_FONT_START_ADDRESS_IN_MEMORY + unat (V s ! x) * 5)\<rparr>))
      else if sel = 0x0033 then
        (let val = V s ! x; a = unat (I s) in
         if a + 2 < CHIP8_MEMORY_SIZE
         then Inr (Break, Silent,
                   s\<lparr>memory := (memory s)[a := val div 100, a + 1 := (val div 10) mod 10,
                                           a + 2 := val mod 10]\<rparr>)
         else Inl OutOfBounds)
      else if sel = 0x0055 then
        (if unat (I s) + x \<ge> CHIP8_MEMORY_SIZE then Inr (Return, IPlusXExceededRange, s)
         else Inr (Break, Silent,
                   s\<lparr>memory := fold (\<lambda>i m. m[unat (I s) + i := V s ! i]) [0..<Suc x] (memory s)\<rparr>))
      else if sel = 0x0065 then
        (if unat (I s) + x \<ge> CHIP8_MEMORY_SIZE then Inr (Return, IPlusXExceededRange, s)
         else Inr (Break, Silent,
                   s\<lparr>V := fold (\<lambda>i v. v[i := memory s ! (unat (I s) + i)]) [0..<Suc x] (V s)\<rparr>))
      else Inr (Break, UnknownInstruction, s))"

text \<open>
  The outer switch on \<open>opcode & 0xF000\<close>.  \<open>rand_value\<close> is what \<open>rand()\<close> returns
  (a value from 0 to \<open>RAND_MAX\<close>).  There is no \<open>case 0x9000\<close> in the source.
\<close>

definition execute :: "nat \<Rightarrow> uint16 \<Rightarrow> chip8 \<Rightarrow> fault + (ctl \<times> report \<times> chip8)" where
  "execute rand_value opcode s =
     (let fam = opcode AND 0xF000; x = unat (op_x opcode); y = unat (op_y opcode);
          nn = op_nn opcode in
      if fam = 0x0000 then exec_0 opcode s
      else if fam = 0x1000 then Inr (Break, Silent, s\<lparr>pc := op_nnn opcode\<rparr>)
      else if fam = 0x2000 then
        (if unat (sp s) \<ge> CHIP8_STACK_SIZE then Inr (Return, StackOverflow, s)
         else Inr (Break, Silent,
                   s\<lparr>stack := (stack s)[unat (sp s) := pc s], sp := sp s + 1,
                     pc := op_nnn opcode\<rparr>))
      else if fam = 0x3000 then
        Inr (Break, Silent, if V s ! x = nn then s\<lparr>pc := pc s + 2\<rparr> else s)
      else if fam = 0x4000 then
        Inr (Break, Silent, if V s ! x \<noteq> nn then s\<lparr>pc := pc s + 2\<rparr> else s)
      else if fam = 0x5000 then
        Inr (Break, Silent, if V s ! x = V s ! y then s\<lparr>pc := pc s + 2\<rparr> else s)
      else if fam = 0x6000 then Inr (Break, Silent, s\<lparr>V := (V s)[x := nn]\<rparr>)
      else if fam = 0x7000 then Inr (Break, Silent, s\<lparr>V := (V s)[x := V s ! x + nn]\<rparr>)
      else if fam = 0x8000 then exec_8 opcode s
      else if fam = 0xA000 then Inr (Break, Silent, s\<lparr>I := op_nnn opcode\<rparr>)
      else if fam = 0xB000 then
        Inr (Break, Silent, s\<lparr>pc := ucast (V s ! 0) + op_nnn opcode\<rparr>)
      else if fam = 0xC000 then
        Inr (Break, Silent, s\<lparr>V := (V s)[x := of_nat (rand_value mod 256) AND nn]\<rparr>)
      else if fam = 0xD000 then
        (case draw_sprite (V s ! x) (V s ! y) (op_n opcode) s of
           Inl f \<Rightarrow> Inl f
         | Inr s' \<Rightarrow> Inr (Break, Silent, s'))
      else if fam = 0xE000 then exec_E opcode s
      else if fam = 0xF000 then exec_F opcode s
      else Inr (Break, UnknownInstruction, s))"

text \<open>The two timer decrements at the end of \<open>emulate_cycle\<close>.\<close>

definition timers :: "chip8 \<Rightarrow> chip8" where
  "timers s =
     (let s1 = (if delayTimer s > 0 then s\<lparr>delayTimer := delayTimer s - 1\<rparr> else s)
      in if soundTimer s1 > 0 then s1\<lparr>soundTimer := soundTimer s1 - 1\<rparr> else s1)"

text \<open>
  One call of \<open>emulate_cycle\<close>: fetch, \<open>pc += 2\<close>, dispatch, timers.  A \<open>return\<close> inside
  the switch leaves before the timers.
\<close>

definition emulate_cycle :: "nat \<Rightarrow> chip8 \<Rightarrow> fault + (report \<times> chip8)" where
  "emulate_cycle rand_value s =
     (if unat (pc s) \<ge> CHIP8_MEMORY_SIZE - 1 then Inr (PcOutOfRange, s)
      else
        let opcode = fetch s; s1 = s\<lparr>pc := pc s + 2\<rparr> in
        case execute rand_value opcode s1 of
          Inl f \<Rightarrow> Inl f
        | Inr (Return, r, s2) \<Rightarrow> Inr (r, s2)
        | Inr (Break, r, s2) \<Rightarrow> Inr (r, timers s2))"

section \<open>Runs of the machine\<close>

text \<open>
  What the driver (main) does to a machine: construct it, load a ROM, and then any
  interleaving of steps, key updates and render calls.  A step that is \<open>OutOfBounds\<close>
  has no successor state.
\<close>

inductive reachable :: "chip8 \<Rightarrow> bool" where
  construct: "reachable Chip8"
| rom: "reachable s \<Longrightarrow> load_rom file s = (ok, s') \<Longrightarrow> reachable s'"
| cycle: "reachable s \<Longrightarrow> emulate_cycle rand_value s = Inr (r, s') \<Longrightarrow> reachable s'"
| keys: "reachable s \<Longrightarrow> set_key key_index val s = (r, s') \<Longrightarrow> reachable s'"
| render: "reachable s \<Longrightarrow> reachable (render_screen dbg s)"

text \<open>
  A straight run of \<open>emulate_cycle\<close> calls, one \<open>rand()\<close> value per call; it collects
  what each call reported.
\<close>

fun run :: "nat list \<Rightarrow> chip8 \<Rightarrow> fault + (report list \<times> chip8)" where
  "run [] s = Inr ([], s)"
| "run (rand_value # rvs) s =
     (case emulate_cycle rand_value s of
        Inl f \<Rightarrow> Inl f
      | Inr (r, s') \<Rightarrow>
          (case run rvs s' of
             Inl f \<Rightarrow> Inl f
           | Inr (rs, s'') \<Rightarrow> Inr (r # rs, s'')))"

text \<open>
  \<open>calls_in_a_row rvs s\<close>: each of the next \<open>length rvs\<close> steps from \<open>s\<close> fetches a
  \<open>CALL\<close> (\<open>2nnn\<close>) instruction.
\<close>

fun calls_in_a_row :: "nat list \<Rightarrow> chip8 \<Rightarrow> bool" where
  "calls_in_a_row [] s = True"
| "calls_in_a_row (rand_value # rvs) s =
     (unat (pc s) < CHIP8_MEMORY_SIZE - 1 \<and> fetch s AND 0xF000 = 0x2000 \<and>
      (case emulate_cycle rand_value s of
         Inl f \<Rightarrow> False
       | Inr (r, s') \<Rightarrow> calls_in_a_row rvs s'))"

text \<open>
  \<open>return_addresses rvs s\<close>: the value \<open>pc + 2\<close> that each of the next \<open>length rvs\<close>
  steps from \<open>s\<close> has in \<open>pc\<close> after its fetch, the value a \<open>CALL\<close> pushes.
\<close>

fun return_addresses :: "nat list \<Rightarrow> chip8 \<Rightarrow> uint16 list" where
  "return_addresses [] s = []"
| "return_addresses (rand_value # rvs) s =
     (pc s + 2) # (case emulate_cycle rand_value s of
                     Inl f \<Rightarrow> []
                   | Inr (r, s') \<Rightarrow> return_addresses rvs s')"

text \<open>
  \<open>frame s s'\<close>: \<open>s'\<close> differs from \<open>s\<close> at most in the contents of \<open>V\<close> and \<open>gfx\<close>, the
  two members the drawing loops assign.
\<close>

definition frame :: "chip8 \<Rightarrow> chip8 \<Rightarrow> bool" where
  "frame s s' \<longleftrightarrow>
     loaded_rom_size s' = loaded_rom_size s \<and> draw_flag s' = draw_flag s \<and>
     memory s' = memory s \<and> I s' = I s \<and> pc s' = pc s \<and> stack s' = stack s \<and>
     sp s' = sp s \<and> delayTimer s' = delayTimer s \<and> soundTimer s' = soundTimer s \<and>
     key s' = key s \<and> length (V s') = length (V s) \<and> length (gfx s') = length (gfx s)"

text \<open>
  The drawing loops seen from outside: a draw visits the cells \<open>(row, col)\<close> in order;
  \<open>pixel_index\<close> is the framebuffer index the source computes for a cell, \<open>sprite_bit\<close>
  the sprite pixel it extracts, \<open>xor_step\<close> the effect of one visit on the framebuffer and
  on \<open>VF\<close>, and \<open>view\<close> the part of the state a draw works on.
\<close>

definition pixel_index :: "uint8 \<Rightarrow> uint8 \<Rightarrow> nat \<times> nat \<Rightarrow> nat" where
  "pixel_index x_coord y_coord k =
     ((unat y_coord + fst k) mod 32) * 64 + (unat x_coord + snd k) mod 64"

definition sprite_bit :: "uint8 list \<Rightarrow> nat \<Rightarrow> nat \<times> nat \<Rightarrow> uint8" where
  "sprite_bit mem a k = drop_bit (7 - snd k) (mem ! (a + fst k)) AND 0x01"

definition xor_step ::
  "('k \<Rightarrow> nat) \<Rightarrow> ('k \<Rightarrow> uint8) \<Rightarrow> 'k \<Rightarrow> uint8 list \<times> uint8 \<Rightarrow> uint8 list \<times> uint8" where
  "xor_step idx sbit k gv =
     ((fst gv)[idx k := fst gv ! idx k XOR sbit k],
      if fst gv ! idx k = 1 \<and> sbit k = 1 then 1 else snd gv)"

definition view :: "chip8 \<Rightarrow> uint8 list \<times> uint8" where
  "view s = (gfx s, V s ! 0xF)"

section \<open>Concrete machines\<close>

text \<open>
  \<open>prog rom_bytes\<close> is the machine right after construction and a \<open>load_rom\<close> of a
  file holding \<open>rom_bytes\<close> (the load succeeds when the file has at most 3584 bytes).
  The states below are the inputs at which the theorems are evaluated.
\<close>

definition prog :: "uint8 list \<Rightarrow> chip8" where
  "prog rom_bytes = snd (load_rom (Some rom_bytes) Chip8)"

definition add_state :: chip8 where
  "add_state = (prog [0x80, 0x14])\<lparr>V := (replicate 16 0)[0 := 200, 1 := 100]\<rparr>"

definition add_vf_state :: chip8 where
  "add_vf_state = (prog [0x8F, 0x04])\<lparr>V := (replicate 16 0)[0 := 1, 0xF := 1]\<rparr>"

definition bcd_state :: chip8 where
  "bcd_state = (prog [0xAF, 0xFF, 0xF0, 0x33])\<lparr>I := 0xFFF, pc := 0x202\<rparr>"

definition drw_state :: chip8 where
  "drw_state = (prog [0xAF, 0xFF, 0xD0, 0x02])\<lparr>I := 0xFFF, pc := 0x202\<rparr>"

definition skp_state :: chip8 where
  "skp_state = (prog [0x60, 0xFF, 0xE0, 0x9E])\<lparr>V := (replicate 16 0)[0 := 0xFF], pc := 0x202\<rparr>"

definition sknp_state :: chip8 where
  "sknp_state = (prog [0x60, 0xFF, 0xE0, 0xA1])\<lparr>V := (replicate 16 0)[0 := 0xFF], pc := 0x202\<rparr>"

definition ld_dt_state :: chip8 where
  "ld_dt_state =
     (prog [0x60, 0x05, 0xF0, 0x15, 0x00, 0xEE])\<lparr>V := (replicate 16 0)[0 := 5], pc := 0x202\<rparr>"

definition ret_state :: chip8 where
  "ret_state = ld_dt_state\<lparr>pc := 0x204, delayTimer := 4\<rparr>"

definition drawn_state :: chip8 where
  "drawn_state =
     (prog [0xA0, 0x50, 0xD0, 0x01, 0x00, 0xE0])
       \<lparr>draw_flag := True, V := (replicate 16 0)[0xF := 0], I := 0x50, pc := 0x204,
        gfx := (replicate 2048 0)[0 := 1, 1 := 1, 2 := 1, 3 := 1, 4 := 0, 5 := 0, 6 := 0, 7 := 0]\<rparr>"

definition sprite_state :: chip8 where
  "sprite_state = (prog [0xA0, 0x50, 0xD0, 0x01, 0x00, 0xE0])\<lparr>I := 0x50, pc := 0x204\<rparr>"

definition cls_state :: chip8 where
  "cls_state = drawn_state\<lparr>draw_flag := False\<rparr>"

definition call_loop :: chip8 where
  "call_loop = prog [0x22, 0x00]"

definition sixteen_rands :: "nat list" where
  "sixteen_rands = [0, 0, 0, 0, 0, 0, 0, 0, 0, 0, 0, 0, 0, 0, 0, 0]"

definition dump_abort_state :: chip8 where
  "dump_abort_state = (prog [0xAF, 0xFF, 0xF1, 0x55])\<lparr>I := 0xFFF, pc := 0x202\<rparr>"

definition dump_state :: chip8 where
  "dump_state = (prog [0xF1, 0x55])\<lparr>V := (replicate 16 0)[0 := 7, 1 := 9], I := 0x300\<rparr>"

definition load_state :: chip8 where
  "load_state = (prog [0xF1, 0x65])\<lparr>I := 0x200\<rparr>"

definition wait_state :: chip8 where
  "wait_state = prog [0xF1, 0x0A]"

definition pressed_state :: chip8 where
  "pressed_state = (prog [0xF1, 0x0A])\<lparr>key := (replicate 16 0)[3 := 1, 7 := 1]\<rparr>"

section \<open>Basic facts\<close>

lemmas chip8_sizes =
  CHIP8_MEMORY_SIZE_def CHIP8_FONT_BUFFER_SIZE_def CHIP8_FONT_START_ADDRESS_IN_MEMORY_def
  CHIP8_REGISTERS_COUNT_def CHIP8_STACK_SIZE_def CHIP8_SCREEN_WIDTH_def
  CHIP8_SCREEN_HEIGHT_def CHIP8_VIDEO_BUFFER_SIZE_def CHIP8_START_PROGRAM_ADDRESS_def
  CHIP8_KEYBOARD_SIZE_def

subsection \<open>Bytes and 16-bit words\<close>

lemma unat_uint8_less: "unat (a :: uint8) < 256"
proof -
  have "unat a < 2 ^ LENGTH(8)" by (rule unsigned_less)
  then show ?thesis by simp
qed

lemma unat_ucast_8_16: "unat (ucast (a :: uint8) :: uint16) = unat a"
proof -
  have "unat a < 2 ^ 16" using unat_uint8_less [of a] by simp
  then show ?thesis by (simp add: unsigned_ucast_eq take_bit_nat_eq_self)
qed

lemma unat_ucast_16_8: "unat (ucast (w :: uint16) :: uint8) = unat w mod 256"
  by (simp add: unsigned_ucast_eq take_bit_eq_mod)

lemma op_x_bound: "unat (op_x w) < 16"
proof -
  have "w AND 0x0F00 \<le> 0x0F00" by (rule word_and_le1)
  then have "unat (w AND 0x0F00) \<le> 0x0F00" by (simp add: word_le_nat_alt)
  then have "unat (drop_bit 8 (w AND 0x0F00)) < 16"
    by (simp add: drop_bit_eq_div unat_div)
  then show ?thesis
    unfolding op_x_def by (simp add: unat_ucast_16_8)
qed

lemma op_y_bound: "unat (op_y w) < 16"
proof -
  have "w AND 0x00F0 \<le> 0x00F0" by (rule word_and_le1)
  then have "unat (w AND 0x00F0) \<le> 0x00F0" by (simp add: word_le_nat_alt)
  then have "unat (drop_bit 4 (w AND 0x00F0)) < 16"
    by (simp add: drop_bit_eq_div unat_div)
  then show ?thesis
    unfolding op_y_def by (simp add: unat_ucast_16_8)
qed

lemma sum_unat: "unat ((ucast (a::uint8) :: uint16) + ucast (b::uint8)) = unat a + unat b"
proof -
  have "unat (ucast a :: uint16) + unat (ucast b :: uint16) < 2 ^ LENGTH(16)"
    using unat_uint8_less [of a] unat_uint8_less [of b] by (simp add: unat_ucast_8_16)
  then show ?thesis
    by (simp add: unat_add_lem [THEN iffD1] unat_ucast_8_16)
qed

lemma low_byte: "unat (ucast ((w::uint16) AND 0xFF) :: uint8) = unat w mod 256"
proof -
  have "(0xFF :: uint16) = mask 8" by (simp add: mask_eq_exp_minus_1)
  then have "w AND 0xFF = take_bit 8 w" by (simp add: take_bit_eq_mask)
  then show ?thesis
    by (simp add: unat_ucast_16_8 take_bit_eq_mod unat_mod)
qed

subsection \<open>Loops that store into an array\<close>

lemma length_fold_update [simp]:
  "length (fold (\<lambda>i m. m[g i := f i]) xs m) = length m"
  by (induction xs arbitrary: m) simp_all

lemma nth_fold_update:
  "j < length m \<Longrightarrow>
   fold (\<lambda>i m. m[a + i := f i]) [0..<n] m ! j =
     (if a \<le> j \<and> j < a + n then f (j - a) else m ! j)"
proof (induction n)
  case 0
  then show ?case by auto
next
  case (Suc n)
  then show ?case by (cases "j = a + n") (auto simp: nth_list_update)
qed

subsection \<open>The constructed and the loaded machine\<close>

lemma valid_state_Chip8: "valid_state Chip8"
  by (simp add: valid_state_def Chip8_def copy_sprite_font_into_memory_def)

lemma Chip8_fields [simp]:
  "loaded_rom_size Chip8 = 0" "draw_flag Chip8 = False"
  "V Chip8 = replicate 16 0" "I Chip8 = 0" "pc Chip8 = 0x200"
  "stack Chip8 = replicate 16 0" "sp Chip8 = 0" "delayTimer Chip8 = 0" "soundTimer Chip8 = 0"
  "gfx Chip8 = replicate 2048 0" "key Chip8 = replicate 16 0" "length (memory Chip8) = 4096"
  by (simp_all add: Chip8_def copy_sprite_font_into_memory_def chip8_sizes)

lemma prog_fields:
  assumes "length rom_bytes \<le> 3584"
  shows "draw_flag (prog rom_bytes) = False"
    "V (prog rom_bytes) = replicate 16 0" "I (prog rom_bytes) = 0" "pc (prog rom_bytes) = 0x200"
    "stack (prog rom_bytes) = replicate 16 0" "sp (prog rom_bytes) = 0"
    "delayTimer (prog rom_bytes) = 0" "soundTimer (prog rom_bytes) = 0"
    "gfx (prog rom_bytes) = replicate 2048 0" "key (prog rom_bytes) = replicate 16 0"
    "length (memory (prog rom_bytes)) = 4096"
  using assms
  by (simp_all add: prog_def load_rom_def Let_def chip8_sizes unat_of_nat)

lemma prog_memory:
  assumes "length rom_bytes \<le> 3584" and "512 \<le> a" and "a < 512 + length rom_bytes"
  shows "memory (prog rom_bytes) ! a = rom_bytes ! (a - 512)"
  using assms
  by (simp add: prog_def load_rom_def Let_def chip8_sizes unat_of_nat nth_fold_update)

lemma reachable_prog: "reachable (prog rom_bytes)"
  unfolding prog_def
  by (rule reachable.rom [OF reachable.construct, of "Some rom_bytes"
        "fst (load_rom (Some rom_bytes) Chip8)"]) simp

subsection \<open>The timers touch nothing but the timers\<close>

lemma timers_fields [simp]:
  "V (timers s) = V s" "I (timers s) = I s" "pc (timers s) = pc s" "sp (timers s) = sp s"
  "stack (timers s) = stack s" "memory (timers s) = memory s" "gfx (timers s) = gfx s"
  "key (timers s) = key s" "draw_flag (timers s) = draw_flag s"
  "loaded_rom_size (timers s) = loaded_rom_size s"
  by (simp_all add: timers_def Let_def)

subsection \<open>What the drawing loops leave alone\<close>

lemma frame_refl: "frame s s" by (simp add: frame_def)

lemma frame_trans: "frame s s1 \<Longrightarrow> frame s1 s2 \<Longrightarrow> frame s s2"
  by (simp add: frame_def)

lemma draw_pixel_frame: "frame s (draw_pixel b x y r c s)"
  by (simp add: frame_def draw_pixel_def Let_def)

lemma fold_draw_pixel_frame: "frame s (fold (draw_pixel b x y r) cs s)"
proof (induction cs arbitrary: s)
  case Nil
  show ?case by (simp add: frame_refl)
next
  case (Cons c cs)
  show ?case using frame_trans [OF draw_pixel_frame Cons.IH] by simp
qed

lemma draw_row_frame: "frame s (draw_row b x y r s)"
  by (simp add: draw_row_def fold_draw_pixel_frame)

lemma draw_row_fields [simp]:
  "loaded_rom_size (draw_row b x y r s) = loaded_rom_size s"
  "draw_flag (draw_row b x y r s) = draw_flag s"
  "memory (draw_row b x y r s) = memory s" "I (draw_row b x y r s) = I s"
  "pc (draw_row b x y r s) = pc s" "stack (draw_row b x y r s) = stack s"
  "sp (draw_row b x y r s) = sp s" "delayTimer (draw_row b x y r s) = delayTimer s"
  "soundTimer (draw_row b x y r s) = soundTimer s" "key (draw_row b x y r s) = key s"
  "length (V (draw_row b x y r s)) = length (V s)"
  "length (gfx (draw_row b x y r s)) = length (gfx s)"
  using draw_row_frame [of s b x y r] by (simp_all add: frame_def)

lemma draw_rows_frame: "draw_rows row h x y s = Inr s' \<Longrightarrow> frame s s'"
proof (induction row h x y s rule: draw_rows.induct)
  case (1 row height x_coord y_coord s)
  let ?s1 = "draw_row (memory s ! (unat (I s) + row)) x_coord y_coord row s"
  show ?case
  proof (cases "row < unat height \<and> \<not> unat y_coord + row \<ge> 32")
    case False
    then have "draw_rows row height x_coord y_coord s = Inr s"
      by (subst draw_rows.simps) auto
    with "1.prems" show ?thesis by (simp add: frame_refl)
  next
    case True
    have ok: "\<not> CHIP8_MEMORY_SIZE \<le> unat (I s) + row"
    proof
      assume "CHIP8_MEMORY_SIZE \<le> unat (I s) + row"
      with True have "draw_rows row height x_coord y_coord s = Inl OutOfBounds"
        by (subst draw_rows.simps) simp
      with "1.prems" show False by simp
    qed
    with True have "draw_rows row height x_coord y_coord s =
        draw_rows (Suc row) height x_coord y_coord ?s1"
      by (subst draw_rows.simps) simp
    with "1.prems" have rec: "draw_rows (Suc row) height x_coord y_coord ?s1 = Inr s'"
      by simp
    from True ok have "frame ?s1 s'"
      by (intro "1.IH" rec) simp_all
    then show ?thesis using frame_trans [OF draw_row_frame] by blast
  qed
qed

lemma draw_sprite_fields:
  assumes "draw_sprite x y h s = Inr s'"
  shows "loaded_rom_size s' = loaded_rom_size s" "draw_flag s' = True"
    "memory s' = memory s" "I s' = I s" "pc s' = pc s" "stack s' = stack s"
    "sp s' = sp s" "delayTimer s' = delayTimer s" "soundTimer s' = soundTimer s"
    "key s' = key s" "length (V s') = length (V s)" "length (gfx s') = length (gfx s)"
proof -
  from assms obtain s2 where
    r: "draw_rows 0 h (x mod 64) (y mod 32) (s\<lparr>V := (V s)[0xF := 0]\<rparr>) = Inr s2"
    and s': "s' = s2\<lparr>draw_flag := True\<rparr>"
    by (auto simp: draw_sprite_def split: sum.splits)
  from draw_rows_frame [OF r] have f: "frame (s\<lparr>V := (V s)[0xF := 0]\<rparr>) s2" .
  show "loaded_rom_size s' = loaded_rom_size s" "draw_flag s' = True"
    "memory s' = memory s" "I s' = I s" "pc s' = pc s" "stack s' = stack s"
    "sp s' = sp s" "delayTimer s' = delayTimer s" "soundTimer s' = soundTimer s"
    "key s' = key s" "length (V s') = length (V s)" "length (gfx s') = length (gfx s)"
    using f by (simp_all add: s' frame_def)
qed

lemma op_nnn_bound: "unat (op_nnn w) < 4096"
proof -
  have "w AND 0x0FFF \<le> 0x0FFF" by (rule word_and_le1)
  then show ?thesis by (simp add: op_nnn_def word_le_nat_alt)
qed

lemma font_addr_bound:
  assumes "unat (v :: uint8) < 16"
  shows "unat (80 + ucast v * 5 :: uint16) < 4096"
proof -
  have "unat (80 + ucast v * 5 :: uint16) = (80 + (unat v * 5) mod 65536) mod 65536"
    by (simp add: unat_word_ariths unat_ucast_8_16)
  also have "\<dots> \<le> 80 + (unat v * 5) mod 65536" by (rule mod_less_eq_dividend)
  also have "\<dots> \<le> 80 + unat v * 5" by (simp add: mod_less_eq_dividend)
  finally show ?thesis using assms by simp
qed

lemma exec_0_I: "exec_0 opcode s = Inr (c, r, s') \<Longrightarrow> I s' = I s"
  by (auto simp: exec_0_def clear_video_buffer_def Let_def split: if_splits)

lemma exec_8_I: "exec_8 opcode s = Inr (c, r, s') \<Longrightarrow> I s' = I s"
  by (auto simp: exec_8_def Let_def split: if_splits)

lemma exec_E_I: "exec_E opcode s = Inr (c, r, s') \<Longrightarrow> I s' = I s"
  by (auto simp: exec_E_def Let_def split: if_splits)

lemma exec_F_I:
  "exec_F opcode s = Inr (c, r, s') \<Longrightarrow> unat (I s) < 4096 \<Longrightarrow> unat (I s') < 4096"
  by (auto simp: exec_F_def Let_def chip8_sizes font_addr_bound
      split: if_splits option.splits)

lemma execute_I:
  "execute rv opcode s = Inr (c, r, s') \<Longrightarrow> unat (I s) < 4096 \<Longrightarrow> unat (I s') < 4096"
  unfolding execute_def Let_def
  by (auto simp: op_nnn_bound draw_sprite_fields dest: exec_0_I exec_8_I exec_E_I exec_F_I
      split: if_splits sum.splits)

lemma emulate_cycle_I:
  assumes "emulate_cycle rv s = Inr (r, s')" and "unat (I s) < 4096"
  shows "unat (I s') < 4096"
proof (cases "unat (pc s) \<ge> CHIP8_MEMORY_SIZE - 1")
  case True
  with assms show ?thesis by (simp add: emulate_cycle_def)
next
  case False
  with assms(1) obtain c s2 where
    e: "execute rv (fetch s) (s\<lparr>pc := pc s + 2\<rparr>) = Inr (c, r, s2)"
    and s': "s' = s2 \<or> s' = timers s2"
    by (auto simp: emulate_cycle_def Let_def split: sum.splits ctl.splits)
  from execute_I [OF e] assms(2) have "unat (I s2) < 4096" by simp
  with s' show ?thesis by auto
qed

subsection \<open>Timers and control flow of the dispatch\<close>

lemma exec_0_timers:
  "exec_0 opcode s = Inr (c, r, s') \<Longrightarrow>
   delayTimer s' = delayTimer s \<and> soundTimer s' = soundTimer s \<and>
   (c = Return \<longleftrightarrow> r = StackUnderflow) \<and> r \<noteq> StackOverflow \<and> r \<noteq> IPlusXExceededRange"
  by (auto simp: exec_0_def clear_video_buffer_def Let_def split: if_splits)

lemma exec_8_timers:
  "exec_8 opcode s = Inr (c, r, s') \<Longrightarrow>
   delayTimer s' = delayTimer s \<and> soundTimer s' = soundTimer s \<and> c = Break \<and>
   r \<noteq> StackUnderflow \<and> r \<noteq> StackOverflow \<and> r \<noteq> IPlusXExceededRange"
  by (auto simp: exec_8_def Let_def split: if_splits)

lemma exec_E_timers:
  "exec_E opcode s = Inr (c, r, s') \<Longrightarrow>
   delayTimer s' = delayTimer s \<and> soundTimer s' = soundTimer s \<and> c = Break \<and>
   r \<noteq> StackUnderflow \<and> r \<noteq> StackOverflow \<and> r \<noteq> IPlusXExceededRange"
  by (auto simp: exec_E_def Let_def split: if_splits)

lemma exec_F_timers:
  "exec_F opcode s = Inr (c, r, s') \<Longrightarrow>
   delayTimer s' = (if opcode AND 0x00FF = 0x0015 then V s ! unat (op_x opcode) else delayTimer s) \<and>
   soundTimer s' = (if opcode AND 0x00FF = 0x0018 then V s ! unat (op_x opcode) else soundTimer s) \<and>
   (c = Return \<longleftrightarrow> r = IPlusXExceededRange) \<and> r \<noteq> StackOverflow \<and> r \<noteq> StackUnderflow \<and>
   (c = Return \<longrightarrow> delayTimer s' = delayTimer s \<and> soundTimer s' = soundTimer s)"
  by (auto simp: exec_F_def Let_def split: if_splits option.splits)

lemma execute_timers:
  assumes "execute rv opcode s = Inr (c, r, s')"
  shows "delayTimer s' =
           (if opcode AND 0xF000 = 0xF000 \<and> opcode AND 0x00FF = 0x0015
            then V s ! unat (op_x opcode) else delayTimer s)"
    and "soundTimer s' =
           (if opcode AND 0xF000 = 0xF000 \<and> opcode AND 0x00FF = 0x0018
            then V s ! unat (op_x opcode) else soundTimer s)"
    and "c = Return \<longleftrightarrow> r = StackUnderflow \<or> r = StackOverflow \<or> r = IPlusXExceededRange"
    and "c = Return \<longrightarrow> delayTimer s' = delayTimer s \<and> soundTimer s' = soundTimer s"
  using assms unfolding execute_def Let_def
  by (auto simp: draw_sprite_fields
      dest: exec_0_timers exec_8_timers exec_E_timers exec_F_timers
      split: if_splits sum.splits)

subsection \<open>The key scan\<close>

lemma scan_keys_None:
  "scan_keys i ks = None \<longleftrightarrow> (\<forall>j. i \<le> j \<and> j < CHIP8_KEYBOARD_SIZE \<longrightarrow> ks ! j = 0)"
proof (induction i ks rule: scan_keys.induct)
  case (1 i k)
  show ?case
  proof (cases "i < CHIP8_KEYBOARD_SIZE")
    case False
    then show ?thesis by (subst scan_keys.simps) auto
  next
    case True
    show ?thesis
    proof (cases "k ! i \<noteq> 0")
      case nz: True
      with True show ?thesis by (subst scan_keys.simps) auto
    next
      case z: False
      with True have "scan_keys i k = scan_keys (Suc i) k" by (subst scan_keys.simps) simp
      moreover from True z have "scan_keys (Suc i) k = None \<longleftrightarrow>
          (\<forall>j. Suc i \<le> j \<and> j < CHIP8_KEYBOARD_SIZE \<longrightarrow> k ! j = 0)"
        by (intro "1.IH") simp_all
      ultimately show ?thesis using z
        by (metis Suc_leI le_neq_implies_less order_less_imp_le Suc_le_lessD)
    qed
  qed
qed

lemma scan_keys_Some:
  "i \<le> n \<Longrightarrow> n < CHIP8_KEYBOARD_SIZE \<Longrightarrow> ks ! n \<noteq> 0 \<Longrightarrow> (\<forall>j. i \<le> j \<and> j < n \<longrightarrow> ks ! j = 0) \<Longrightarrow>
   scan_keys i ks = Some n"
proof (induction i ks rule: scan_keys.induct)
  case (1 i k)
  then have lt: "i < CHIP8_KEYBOARD_SIZE" by simp
  show ?case
  proof (cases "i = n")
    case True
    with 1 lt show ?thesis by (subst scan_keys.simps) simp
  next
    case False
    with "1.prems" have z: "k ! i = 0" and le: "Suc i \<le> n" by auto
    from lt z have "scan_keys i k = scan_keys (Suc i) k" by (subst scan_keys.simps) simp
    moreover from lt z le "1.prems" have "scan_keys (Suc i) k = Some n"
      by (intro "1.IH") auto
    ultimately show ?thesis by simp
  qed
qed

subsection \<open>The register transfer loops\<close>

lemma nth_fold_update0:
  "j < length m \<Longrightarrow>
   fold (\<lambda>i m. m[i := f i]) [0..<n] m ! j = (if j < n then f j else m ! j)"
  using nth_fold_update [of j m 0 f n] by simp

lemma fold_dump:
  assumes "a + n \<le> length m" and "n \<le> length v"
  shows "fold (\<lambda>i m. m[a + i := v ! i]) [0..<n] m = take a m @ take n v @ drop (a + n) m"
proof (rule nth_equalityI)
  show "length (fold (\<lambda>i m. m[a + i := v ! i]) [0..<n] m) =
        length (take a m @ take n v @ drop (a + n) m)"
    using assms by simp
next
  fix j assume "j < length (fold (\<lambda>i m. m[a + i := v ! i]) [0..<n] m)"
  then have j: "j < length m" by simp
  show "fold (\<lambda>i m. m[a + i := v ! i]) [0..<n] m ! j =
        (take a m @ take n v @ drop (a + n) m) ! j"
    using assms j by (auto simp: nth_fold_update nth_append)
qed

lemma fold_load:
  assumes "a + n \<le> length m" and "n \<le> length v"
  shows "fold (\<lambda>i v. v[i := m ! (a + i)]) [0..<n] v = take n (drop a m) @ drop n v"
proof (rule nth_equalityI)
  show "length (fold (\<lambda>i v. v[i := m ! (a + i)]) [0..<n] v) =
        length (take n (drop a m) @ drop n v)"
    using assms by simp
next
  fix j assume "j < length (fold (\<lambda>i v. v[i := m ! (a + i)]) [0..<n] v)"
  then have j: "j < length v" by simp
  show "fold (\<lambda>i v. v[i := m ! (a + i)]) [0..<n] v ! j = (take n (drop a m) @ drop n v) ! j"
    using assms j by (auto simp: nth_fold_update0 nth_append)
qed


subsection \<open>CALL\<close>

lemma valid_state_timers [simp]: "valid_state (timers s) = valid_state s"
  by (simp add: valid_state_def)

lemma call_at_capacity:
  assumes "unat (pc s) < CHIP8_MEMORY_SIZE - 1" and "fetch s AND 0xF000 = 0x2000"
    and "unat (sp s) \<ge> CHIP8_STACK_SIZE"
  shows "emulate_cycle rand_value s = Inr (StackOverflow, s\<lparr>pc := pc s + 2\<rparr>)"
  using assms by (simp add: emulate_cycle_def execute_def Let_def)

lemma call_below_capacity:
  assumes "unat (pc s) < CHIP8_MEMORY_SIZE - 1" and "fetch s AND 0xF000 = 0x2000"
    and "unat (sp s) < CHIP8_STACK_SIZE"
  shows "emulate_cycle rand_value s =
           Inr (Silent, timers (s\<lparr>stack := (stack s)[unat (sp s) := pc s + 2],
                                  sp := sp s + 1, pc := op_nnn (fetch s)\<rparr>))"
  using assms by (simp add: emulate_cycle_def execute_def Let_def)

lemma sp_succ: "unat (sp s) < CHIP8_STACK_SIZE \<Longrightarrow> unat (sp s + 1) = Suc (unat (sp s))"
  by (simp add: chip8_sizes unat_word_ariths)

lemma take_Suc_update: "n < length xs \<Longrightarrow> take (Suc n) (xs[n := v]) = take n xs @ [v]"
  by (simp add: take_Suc_conv_app_nth)

subsection \<open>A draw as a sequence of XOR steps\<close>

lemma xor_step_length [simp]: "length (fst (xor_step idx sbit k gv)) = length (fst gv)"
  by (simp add: xor_step_def)

lemma xor_step_nth_same:
  "idx k < length (fst gv) \<Longrightarrow> fst (xor_step idx sbit k gv) ! idx k = fst gv ! idx k XOR sbit k"
  by (simp add: xor_step_def)

lemma xor_step_nth_other: "p \<noteq> idx k \<Longrightarrow> fst (xor_step idx sbit k gv) ! p = fst gv ! p"
  by (simp add: xor_step_def)

lemma xor_step_flag:
  "snd (xor_step idx sbit k gv) = 1 \<longleftrightarrow> snd gv = 1 \<or> (fst gv ! idx k = 1 \<and> sbit k = 1)"
  by (auto simp: xor_step_def)

lemma length_fold_xor [simp]:
  "length (fst (fold (xor_step idx sbit) ks gv)) = length (fst gv)"
  by (induction ks arbitrary: gv) simp_all

lemma fold_xor_untouched:
  "p \<notin> idx ` set ks \<Longrightarrow> fst (fold (xor_step idx sbit) ks gv) ! p = fst gv ! p"
  by (induction ks arbitrary: gv) (simp_all add: xor_step_nth_other)

lemma fold_xor_touched:
  assumes "distinct ks" and "inj_on idx (set ks)" and "k \<in> set ks" and "idx k < length (fst gv)"
  shows "fst (fold (xor_step idx sbit) ks gv) ! idx k = fst gv ! idx k XOR sbit k"
  using assms
proof (induction ks arbitrary: gv)
  case Nil
  then show ?case by simp
next
  case (Cons k0 ks)
  show ?case
  proof (cases "k = k0")
    case True
    with Cons.prems have "idx k \<notin> idx ` set ks" by (auto simp: inj_on_def)
    then have "fst (fold (xor_step idx sbit) ks (xor_step idx sbit k0 gv)) ! idx k =
               fst (xor_step idx sbit k0 gv) ! idx k"
      by (rule fold_xor_untouched)
    with True Cons.prems(4) show ?thesis by (simp add: xor_step_nth_same)
  next
    case False
    with Cons.prems have in_ks: "k \<in> set ks" and ne: "idx k0 \<noteq> idx k"
      by (auto simp: inj_on_def)
    from Cons.prems have d: "distinct ks" and i: "inj_on idx (set ks)"
      by (auto simp: inj_on_def)
    from Cons.prems(4) have l: "idx k < length (fst (xor_step idx sbit k0 gv))"
      by simp
    from Cons.IH [OF d i in_ks l] ne show ?thesis by (simp add: xor_step_nth_other)
  qed
qed

lemma fold_xor_flag:
  assumes "distinct ks" and "inj_on idx (set ks)"
  shows "snd (fold (xor_step idx sbit) ks gv) = 1 \<longleftrightarrow>
         snd gv = 1 \<or> (\<exists>k\<in>set ks. sbit k = 1 \<and> fst gv ! idx k = 1)"
  using assms
proof (induction ks arbitrary: gv)
  case Nil
  then show ?case by simp
next
  case (Cons k0 ks)
  from Cons.prems have d: "distinct ks" and i: "inj_on idx (set ks)"
    and ne: "\<forall>k\<in>set ks. idx k \<noteq> idx k0"
    by (auto simp: inj_on_def)
  from ne have same: "\<forall>k\<in>set ks. fst (xor_step idx sbit k0 gv) ! idx k = fst gv ! idx k"
    by (auto intro: xor_step_nth_other)
  have "snd (fold (xor_step idx sbit) (k0 # ks) gv) = 1 \<longleftrightarrow>
        snd (xor_step idx sbit k0 gv) = 1 \<or>
        (\<exists>k\<in>set ks. sbit k = 1 \<and> fst (xor_step idx sbit k0 gv) ! idx k = 1)"
    using Cons.IH [OF d i] by simp
  also have "\<dots> \<longleftrightarrow> snd (xor_step idx sbit k0 gv) = 1 \<or>
        (\<exists>k\<in>set ks. sbit k = 1 \<and> fst gv ! idx k = 1)"
    using same by auto
  also have "\<dots> \<longleftrightarrow> snd gv = 1 \<or> (\<exists>k\<in>set (k0 # ks). sbit k = 1 \<and> fst gv ! idx k = 1)"
    by (auto simp: xor_step_flag)
  finally show ?case .
qed

lemma xor_one_iff: "(a XOR 1 = 1) \<longleftrightarrow> a = 0" for a :: uint8
proof
  assume "a XOR 1 = 1"
  then have "(a XOR 1) XOR 1 = 1 XOR 1" by simp
  then show "a = 0" by (simp add: xor.assoc)
qed simp

lemma fold_xor_twice:
  assumes d: "distinct ks" and i: "inj_on idx (set ks)"
    and b: "\<forall>k\<in>set ks. idx k < length g"
    and z: "\<forall>k\<in>set ks. sbit k = 0 \<or> sbit k = 1"
  defines "g1 \<equiv> fst (fold (xor_step idx sbit) ks (g, 0))"
  shows "fst (fold (xor_step idx sbit) ks (g1, 0)) = g"
    and "snd (fold (xor_step idx sbit) ks (g1, 0)) = 1 \<longleftrightarrow>
         (\<exists>p < length g. g ! p = 0 \<and> g1 ! p = 1)"
proof -
  have len1: "length g1 = length g" by (simp add: g1_def)
  have t1: "g1 ! idx k = g ! idx k XOR sbit k" if "k \<in> set ks" for k
    unfolding g1_def using fold_xor_touched [OF d i that, of "(g, 0)" sbit] b that by simp
  have u1: "g1 ! p = g ! p" if "p \<notin> idx ` set ks" for p
    unfolding g1_def using fold_xor_untouched [OF that, of sbit "(g, 0)"] by simp
  show "fst (fold (xor_step idx sbit) ks (g1, 0)) = g"
  proof (rule nth_equalityI)
    show "length (fst (fold (xor_step idx sbit) ks (g1, 0))) = length g"
      by (simp add: len1)
  next
    fix p assume "p < length (fst (fold (xor_step idx sbit) ks (g1, 0)))"
    show "fst (fold (xor_step idx sbit) ks (g1, 0)) ! p = g ! p"
    proof (cases "p \<in> idx ` set ks")
      case True
      then obtain k where k: "k \<in> set ks" and p: "p = idx k" by auto
      from b k len1 have "idx k < length (fst (g1, 0::uint8))" by simp
      from fold_xor_touched [OF d i k this, of sbit]
      have "fst (fold (xor_step idx sbit) ks (g1, 0)) ! idx k = g1 ! idx k XOR sbit k" by simp
      with t1 [OF k] p show ?thesis by (simp add: xor.assoc)
    next
      case False
      from fold_xor_untouched [OF False, of sbit "(g1, 0)"] u1 [OF False]
      show ?thesis by simp
    qed
  qed
  have "snd (fold (xor_step idx sbit) ks (g1, 0)) = 1 \<longleftrightarrow>
        (\<exists>k\<in>set ks. sbit k = 1 \<and> g1 ! idx k = 1)"
    using fold_xor_flag [OF d i, of sbit "(g1, 0)"] by simp
  also have "\<dots> \<longleftrightarrow> (\<exists>k\<in>set ks. sbit k = 1 \<and> g ! idx k = 0)"
    using t1 by (auto simp: xor_one_iff)
  also have "\<dots> \<longleftrightarrow> (\<exists>p < length g. g ! p = 0 \<and> g1 ! p = 1)"
  proof
    assume "\<exists>k\<in>set ks. sbit k = 1 \<and> g ! idx k = 0"
    then obtain k where k: "k \<in> set ks" "sbit k = 1" "g ! idx k = 0" by blast
    with t1 [OF k(1)] b have "idx k < length g \<and> g ! idx k = 0 \<and> g1 ! idx k = 1" by simp
    then show "\<exists>p < length g. g ! p = 0 \<and> g1 ! p = 1" by blast
  next
    assume "\<exists>p < length g. g ! p = 0 \<and> g1 ! p = 1"
    then obtain p where p: "p < length g" "g ! p = 0" "g1 ! p = 1" by blast
    have "p \<in> idx ` set ks"
    proof (rule ccontr)
      assume "p \<notin> idx ` set ks"
      from u1 [OF this] p show False by simp
    qed
    then obtain k where k: "k \<in> set ks" "p = idx k" by auto
    with t1 [OF k(1)] p have "sbit k = 1" by simp
    with k p show "\<exists>k\<in>set ks. sbit k = 1 \<and> g ! idx k = 0" by auto
  qed
  finally show "snd (fold (xor_step idx sbit) ks (g1, 0)) = 1 \<longleftrightarrow>
         (\<exists>p < length g. g ! p = 0 \<and> g1 ! p = 1)" .
qed

lemma draw_pixel_fields [simp]:
  "memory (draw_pixel b x y r c s) = memory s" "I (draw_pixel b x y r c s) = I s"
  "length (V (draw_pixel b x y r c s)) = length (V s)"
  using draw_pixel_frame [of s b x y r c] by (simp_all add: frame_def)

lemma view_draw_pixel:
  assumes "length (V s) = 16"
  shows "view (draw_pixel (memory s ! (unat (I s) + row)) x y row col s) =
         xor_step (pixel_index x y) (sprite_bit (memory s) (unat (I s))) (row, col) (view s)"
  using assms
  by (simp add: view_def draw_pixel_def xor_step_def pixel_index_def sprite_bit_def Let_def)

lemma view_fold_draw_pixel:
  assumes "length (V s) = 16" and "b = memory s ! (unat (I s) + row)"
  shows "view (fold (draw_pixel b x y row) cs s) =
         fold (xor_step (pixel_index x y) (sprite_bit (memory s) (unat (I s))))
              (map (Pair row) cs) (view s)"
  using assms
proof (induction cs arbitrary: s)
  case Nil
  show ?case by simp
next
  case (Cons c cs)
  let ?s1 = "draw_pixel b x y row c s"
  have "view (fold (draw_pixel b x y row) cs ?s1) =
        fold (xor_step (pixel_index x y) (sprite_bit (memory ?s1) (unat (I ?s1))))
             (map (Pair row) cs) (view ?s1)"
    using Cons.prems by (intro Cons.IH) simp_all
  moreover have "view ?s1 =
      xor_step (pixel_index x y) (sprite_bit (memory s) (unat (I s))) (row, c) (view s)"
    using Cons.prems view_draw_pixel [of s row x y c] by simp
  ultimately show ?case by simp
qed

lemma view_draw_row:
  assumes "length (V s) = 16"
  shows "view (draw_row (memory s ! (unat (I s) + row)) x y row s) =
         fold (xor_step (pixel_index x y) (sprite_bit (memory s) (unat (I s))))
              (map (Pair row) [0..<8]) (view s)"
  unfolding draw_row_def using assms by (rule view_fold_draw_pixel) simp

lemma view_draw_rows:
  assumes "draw_rows row h x y s = Inr s'" and "length (V s) = 16"
  shows "view s' =
         fold (xor_step (pixel_index x y) (sprite_bit (memory s) (unat (I s))))
              (List.product [row..<min (unat h) (32 - unat y)] [0..<8]) (view s)"
  using assms
proof (induction row h x y s rule: draw_rows.induct)
  case (1 row height x_coord y_coord s)
  let ?N = "min (unat height) (32 - unat y_coord)"
  let ?s1 = "draw_row (memory s ! (unat (I s) + row)) x_coord y_coord row s"
  show ?case
  proof (cases "row < unat height \<and> \<not> unat y_coord + row \<ge> 32")
    case False
    then have "draw_rows row height x_coord y_coord s = Inr s"
      by (subst draw_rows.simps) auto
    with "1.prems" have e: "s' = s" by simp
    from False have "[row..<?N] = []" by auto
    then have "fold (xor_step (pixel_index x_coord y_coord) (sprite_bit (memory s) (unat (I s))))
              (List.product [row..<?N] [0..<8]) (view s) = view s"
      by (simp only: List.product.simps fold_simps id_apply)
    with e show ?thesis by (simp only:)
  next
    case True
    have ok: "\<not> CHIP8_MEMORY_SIZE \<le> unat (I s) + row"
    proof
      assume "CHIP8_MEMORY_SIZE \<le> unat (I s) + row"
      with True have "draw_rows row height x_coord y_coord s = Inl OutOfBounds"
        by (subst draw_rows.simps) simp
      with "1.prems" show False by simp
    qed
    with True have "draw_rows row height x_coord y_coord s =
        draw_rows (Suc row) height x_coord y_coord ?s1"
      by (subst draw_rows.simps) simp
    with "1.prems" have rec: "draw_rows (Suc row) height x_coord y_coord ?s1 = Inr s'"
      by simp
    have len: "length (V ?s1) = 16" using "1.prems"(2) by simp
    from True have c1: "row < unat height" and c2: "\<not> 32 \<le> unat y_coord + row"
      by simp_all
    have ih: "view s' =
         fold (xor_step (pixel_index x_coord y_coord) (sprite_bit (memory ?s1) (unat (I ?s1))))
              (List.product [Suc row..<?N] [0..<8]) (view ?s1)"
      by (rule "1.IH" [OF c1 c2 ok rec len])
    from c1 c2 have "row < ?N" by arith
    then have up: "[row..<?N] = row # [Suc row..<?N]" by (rule upt_conv_Cons)
    let ?f = "xor_step (pixel_index x_coord y_coord) (sprite_bit (memory s) (unat (I s)))"
    have m: "memory ?s1 = memory s" "I ?s1 = I s" by simp_all
    have r: "view ?s1 = fold ?f (map (Pair row) [0..<8]) (view s)"
      by (rule view_draw_row [OF "1.prems"(2)])
    have "fold ?f (List.product (row # [Suc row..<?N]) [0..<8]) (view s) =
          fold ?f (List.product [Suc row..<?N] [0..<8]) (fold ?f (map (Pair row) [0..<8]) (view s))"
      by (simp only: List.product.simps fold_append comp_apply)
    also have "\<dots> = fold ?f (List.product [Suc row..<?N] [0..<8]) (view ?s1)"
      by (simp only: r)
    also have "\<dots> = view s'" using ih by (simp only: m)
    finally have "view s' = fold ?f (List.product (row # [Suc row..<?N]) [0..<8]) (view s)"
      by (rule sym)
    then show ?thesis by (simp only: up)
  qed
qed

lemma draw_rows_again:
  assumes "draw_rows row h x y s = Inr s'" and "I t = I s"
  shows "\<exists>t'. draw_rows row h x y t = Inr t'"
  using assms
proof (induction row h x y s arbitrary: t rule: draw_rows.induct)
  case (1 row height x_coord y_coord s)
  let ?s1 = "draw_row (memory s ! (unat (I s) + row)) x_coord y_coord row s"
  let ?t1 = "draw_row (memory t ! (unat (I t) + row)) x_coord y_coord row t"
  show ?case
  proof (cases "row < unat height \<and> \<not> unat y_coord + row \<ge> 32")
    case False
    then have "draw_rows row height x_coord y_coord t = Inr t"
      by (subst draw_rows.simps) auto
    then show ?thesis by blast
  next
    case True
    have ok: "\<not> CHIP8_MEMORY_SIZE \<le> unat (I s) + row"
    proof
      assume "CHIP8_MEMORY_SIZE \<le> unat (I s) + row"
      with True have "draw_rows row height x_coord y_coord s = Inl OutOfBounds"
        by (subst draw_rows.simps) simp
      with "1.prems" show False by simp
    qed
    with True have "draw_rows row height x_coord y_coord s =
        draw_rows (Suc row) height x_coord y_coord ?s1"
      by (subst draw_rows.simps) simp
    with "1.prems" have rec: "draw_rows (Suc row) height x_coord y_coord ?s1 = Inr s'"
      by simp
    have "I ?t1 = I ?s1" using "1.prems"(2) by simp
    with True ok have "\<exists>t'. draw_rows (Suc row) height x_coord y_coord ?t1 = Inr t'"
      by (intro "1.IH" rec) simp_all
    moreover from True ok "1.prems"(2) have "draw_rows row height x_coord y_coord t =
        draw_rows (Suc row) height x_coord y_coord ?t1"
      by (subst draw_rows.simps) simp
    ultimately show ?thesis by simp
  qed
qed

lemma pixel_index_bound: "pixel_index x y k < 2048"
proof -
  have "(unat y + fst k) mod 32 \<le> 31" by simp
  then have "((unat y + fst k) mod 32) * 64 \<le> 31 * 64" by (rule mult_le_mono1)
  moreover have "(unat x + snd k) mod 64 < 64" by simp
  ultimately show ?thesis by (simp add: pixel_index_def)
qed

lemma sprite_bit_cases: "sprite_bit mem a k = 0 \<or> sprite_bit mem a k = 1"
proof -
  have "sprite_bit mem a k \<le> 1" unfolding sprite_bit_def by (rule word_and_le1)
  then have "unat (sprite_bit mem a k) \<le> 1" by (simp add: word_le_nat_alt)
  then have "unat (sprite_bit mem a k) = 0 \<or> unat (sprite_bit mem a k) = 1" by auto
  then show ?thesis by (metis unat_0_iff unat_1 word_unat_eq_iff)
qed

lemma lex_eq:
  fixes a a' p q :: nat
  assumes "a < 64" and "a' < 64" and "p * 64 + a = q * 64 + a'"
  shows "p = q \<and> a = a'"
proof -
  have 1: "(p * 64 + a) div 64 = p" using assms(1) by simp
  have 2: "(q * 64 + a') div 64 = q" using assms(2) by simp
  from assms(3) have "(p * 64 + a) div 64 = (q * 64 + a') div 64" by (rule arg_cong)
  then have "p = q" by (simp only: 1 2)
  with assms(3) show ?thesis by simp
qed

lemma mod_64_inj_aux:
  fixes c c' x :: nat
  assumes "c \<le> c'" and "c' < 8" and "(x + c) mod 64 = (x + c') mod 64"
  shows "c = c'"
proof (rule ccontr)
  assume ne: "c \<noteq> c'"
  from assms(1) have le: "x + c \<le> x + c'" by simp
  from assms(3) have "(x + c') mod 64 = (x + c) mod 64" by (rule sym)
  with mod_eq_dvd_iff_nat [OF le, of 64] have "64 dvd (x + c') - (x + c)" by blast
  then have "64 dvd c' - c" by simp
  moreover from ne assms have "0 < c' - c" "c' - c < 64" by simp_all
  ultimately show False using nat_dvd_not_less by blast
qed

lemma mod_64_inj:
  fixes c c' x :: nat
  assumes "c < 8" and "c' < 8" and "(x + c) mod 64 = (x + c') mod 64"
  shows "c = c'"
proof (cases "c \<le> c'")
  case True
  from mod_64_inj_aux [OF True assms(2,3)] show ?thesis .
next
  case False
  then have "c' \<le> c" by simp
  from mod_64_inj_aux [OF this assms(1) assms(3) [symmetric]] show ?thesis by simp
qed


lemma pixel_index_inj:
  assumes "n \<le> 32 - unat y"
  shows "inj_on (pixel_index x y) (set (List.product [0..<n] [0..<8]))"
proof (rule inj_onI)
  fix k k' assume k: "k \<in> set (List.product [0..<n] [0..<8])"
    and k': "k' \<in> set (List.product [0..<n] [0..<8])"
    and eq: "pixel_index x y k = pixel_index x y k'"
  obtain r c where kk: "k = (r, c)" by (cases k)
  obtain r' c' where kk': "k' = (r', c')" by (cases k')
  from k kk assms have r: "unat y + r < 32" and c: "c < 8" by auto
  from k' kk' assms have r': "unat y + r' < 32" and c': "c' < 8" by auto
  let ?a = "(unat x + c) mod 64" and ?a' = "(unat x + c') mod 64"
  have a: "?a < 64" "?a' < 64" by simp_all
  from eq kk kk' r r' have e: "(unat y + r) * 64 + ?a = (unat y + r') * 64 + ?a'"
    by (simp add: pixel_index_def)
  from lex_eq [OF a e] have rr: "r = r'" and aa: "?a = ?a'" by simp_all
  from mod_64_inj [OF c c' aa] have "c = c'" .
  with rr kk kk' show "k = k'" by simp
qed


subsection \<open>Steps of the concrete machines\<close>

lemma prog_font:
  assumes "length rom_bytes \<le> 3584" and "80 \<le> a" and "a < 160"
  shows "memory (prog rom_bytes) ! a = sprite_font ! (a - 80)"
  using assms
  by (simp add: prog_def load_rom_def Let_def chip8_sizes unat_of_nat nth_fold_update
      Chip8_def copy_sprite_font_into_memory_def)

lemma upt_8: "[0..<8] = [0, 1, 2, 3, 4, 5, 6, 7]"
  by (simp add: upt_rec)

lemmas step_simps =
  emulate_cycle_def execute_def exec_0_def exec_8_def exec_E_def exec_F_def Let_def fetch_def
  prog_fields prog_memory op_x_def op_y_def op_nn_def op_nnn_def op_n_def timers_def chip8_sizes

lemma step_bcd: "emulate_cycle 0 (prog [0xAF, 0xFF, 0xF0, 0x33]) = Inr (Silent, bcd_state)"
  by (simp add: step_simps bcd_state_def)

lemma bcd_fault: "emulate_cycle 0 bcd_state = Inl OutOfBounds"
  by (simp add: step_simps bcd_state_def)

lemma step_drw: "emulate_cycle 0 (prog [0xAF, 0xFF, 0xD0, 0x02]) = Inr (Silent, drw_state)"
  by (simp add: step_simps drw_state_def)

lemma drw_fault: "emulate_cycle 0 drw_state = Inl OutOfBounds"
  by (simp add: step_simps drw_state_def draw_sprite_def draw_rows.simps)

lemma step_skp: "emulate_cycle 0 (prog [0x60, 0xFF, 0xE0, 0x9E]) = Inr (Silent, skp_state)"
  by (simp add: step_simps skp_state_def)

lemma skp_fault: "emulate_cycle 0 skp_state = Inl OutOfBounds"
  by (simp add: step_simps skp_state_def)

lemma step_ld: "emulate_cycle 0 (prog [0x60, 0x05, 0xF0, 0x15, 0x00, 0xEE]) = Inr (Silent, ld_dt_state)"
  by (simp add: step_simps ld_dt_state_def)

lemma step_dt: "emulate_cycle 0 ld_dt_state = Inr (Silent, ret_state)"
  by (simp add: step_simps ld_dt_state_def ret_state_def)

lemma step_ret: "emulate_cycle 0 ret_state = Inr (StackUnderflow, ret_state\<lparr>pc := 0x206\<rparr>)"
  by (simp add: step_simps ld_dt_state_def ret_state_def)

lemma step_draw1: "run [0, 0] (prog [0xA0, 0x50, 0xD0, 0x01, 0x00, 0xE0]) = Inr ([Silent, Silent], drawn_state)"
  by (simp add: step_simps drawn_state_def draw_sprite_def draw_rows.simps draw_row_def draw_pixel_def
     prog_font sprite_font_def upt_8 numeral_2_eq_2 [symmetric])

lemma draw_sprite_state: "draw_sprite 0 0 1 sprite_state = Inr drawn_state"
  by (simp add: sprite_state_def drawn_state_def draw_sprite_def draw_rows.simps draw_row_def
      draw_pixel_def prog_fields prog_font sprite_font_def upt_8 chip8_sizes
      numeral_2_eq_2 [symmetric])

lemma step_cls: "emulate_cycle 0 cls_state = Inr (Silent, cls_state\<lparr>pc := 0x206, gfx := replicate 2048 0\<rparr>)"
  by (simp add: step_simps drawn_state_def cls_state_def clear_video_buffer_def)


lemma step_sknp: "emulate_cycle 0 (prog [0x60, 0xFF, 0xE0, 0xA1]) = Inr (Silent, sknp_state)"
  by (simp add: step_simps sknp_state_def)

lemma sknp_fault: "emulate_cycle 0 sknp_state = Inl OutOfBounds"
  by (simp add: step_simps sknp_state_def)

lemma run_reachable: "reachable s \<Longrightarrow> run rvs s = Inr (rs, s') \<Longrightarrow> reachable s'"
proof (induction rvs arbitrary: s rs)
  case Nil
  then show ?case by simp
next
  case (Cons rv rvs)
  from Cons.prems(2) obtain r s1 rs1 where
    e: "emulate_cycle rv s = Inr (r, s1)" and r: "run rvs s1 = Inr (rs1, s')"
    by (auto split: sum.splits)
  from reachable.cycle [OF Cons.prems(1) e] r show ?case by (rule Cons.IH)
qed

lemma reachable_bcd_state: "reachable bcd_state"
  by (rule reachable.cycle [OF reachable_prog step_bcd])

lemma reachable_drw_state: "reachable drw_state"
  by (rule reachable.cycle [OF reachable_prog step_drw])

lemma reachable_skp_state: "reachable skp_state"
  by (rule reachable.cycle [OF reachable_prog step_skp])

lemma reachable_sknp_state: "reachable sknp_state"
  by (rule reachable.cycle [OF reachable_prog step_sknp])

lemma reachable_ret_state: "reachable ret_state"
  by (rule reachable.cycle [OF reachable.cycle [OF reachable_prog step_ld] step_dt])

lemma reachable_cls_state: "reachable cls_state"
proof -
  have "reachable drawn_state" by (rule run_reachable [OF reachable_prog step_draw1])
  then have "reachable (render_screen False drawn_state)" by (rule reachable.render)
  then show ?thesis by (simp add: render_screen_def cls_state_def drawn_state_def)
qed


section \<open>ADD Vx, Vy (8xy4)\<close>

text \<open>
  Claim C4, as amended.  For an instruction \<open>8xy4\<close> with \<open>x\<close> other than \<open>0xF\<close> (any
  \<open>y\<close>, also \<open>y = x\<close> and \<open>y = 0xF\<close>), the step sets \<open>VF\<close> to 1 if the unsigned sum
  \<open>V[x] + V[y]\<close> of the old register values exceeds 255 and to 0 otherwise, and leaves
  in \<open>V[x]\<close> that sum modulo 256.  The hypotheses are the decode tests of the source:
  \<open>opcode & 0xF000 = 0x8000\<close> and \<open>opcode & 0x000F = 0x0004\<close>, with
  \<open>x = (opcode & 0x0F00) >> 8\<close> and \<open>y = (opcode & 0x00F0) >> 4\<close>.
\<close>

theorem add_vx_vy_carry:
  assumes "valid_state s" and "unat (pc s) < CHIP8_MEMORY_SIZE - 1"
    and "fetch s AND 0xF000 = 0x8000" and "fetch s AND 0x000F = 0x0004"
    and "op_x (fetch s) \<noteq> 0xF"
  shows "\<exists>s'. emulate_cycle rand_value s = Inr (Silent, s') \<and>
           V s' ! 0xF =
             (if unat (V s ! unat (op_x (fetch s))) + unat (V s ! unat (op_y (fetch s))) > 255
              then 1 else 0) \<and>
           unat (V s' ! unat (op_x (fetch s))) =
             (unat (V s ! unat (op_x (fetch s))) + unat (V s ! unat (op_y (fetch s)))) mod 256"
proof -
  let ?x = "unat (op_x (fetch s))"
  let ?y = "unat (op_y (fetch s))"
  have len: "length (V s) = 16" using assms(1) by (simp add: valid_state_def chip8_sizes)
  have x15: "?x \<noteq> 15"
    using assms(5) by (metis of_nat_unat ucast_id of_nat_numeral)
  have xb: "?x < 16" by (rule op_x_bound)
  have gt: "(ucast (V s ! ?x) :: uint16) + ucast (V s ! ?y) > 255 \<longleftrightarrow>
            unat (V s ! ?x) + unat (V s ! ?y) > 255"
    by (simp add: word_less_nat_alt sum_unat)
  show ?thesis
    using assms(2-4) len x15 xb gt
    by (simp add: emulate_cycle_def execute_def exec_8_def Let_def fetch_def [symmetric]
        low_byte sum_unat)
qed

text \<open>
  The theorem at \<open>8014\<close> with \<open>V0 = 200\<close> and \<open>V1 = 100\<close>: the carry is set and \<open>V0\<close> is
  \<open>300 mod 256 = 44\<close>.
\<close>

theorem add_vx_vy_carry_witness:
  "valid_state add_state \<and> unat (pc add_state) < CHIP8_MEMORY_SIZE - 1 \<and>
   fetch add_state AND 0xF000 = 0x8000 \<and> fetch add_state AND 0x000F = 0x0004 \<and>
   op_x (fetch add_state) \<noteq> 0xF \<and>
   (\<exists>s'. emulate_cycle 0 add_state = Inr (Silent, s') \<and> V s' ! 0xF = 1 \<and> unat (V s' ! 0) = 44)"
proof -
  have f: "fetch add_state = 0x8014"
    by (simp add: add_state_def fetch_def prog_fields prog_memory)
  have h: "valid_state add_state" "unat (pc add_state) < CHIP8_MEMORY_SIZE - 1"
    "fetch add_state AND 0xF000 = 0x8000" "fetch add_state AND 0x000F = 0x0004"
    "op_x (fetch add_state) \<noteq> 0xF"
    by (simp_all add: f op_x_def) (simp_all add: add_state_def valid_state_def prog_fields chip8_sizes)
  have v: "V add_state ! 0 = 200" "V add_state ! Suc 0 = 100"
    by (simp_all add: add_state_def)
  show ?thesis
    using h add_vx_vy_carry [OF h, of 0]
    by (simp add: f op_x_def op_y_def v)
qed

text \<open>
  The claim as first stated (any \<open>x \<noteq> y\<close>) fails at \<open>x = 0xF\<close>: the source stores the
  flag into \<open>V[0xF]\<close> first and the low byte of the sum into \<open>V[x]\<close> second.  At \<open>8F04\<close>
  with \<open>VF = 1\<close> and \<open>V0 = 1\<close> the sum is 2, no carry, and \<open>VF\<close> ends as 2.
\<close>

theorem add_vx_vy_carry_counterexample:
  "fetch add_vf_state = 0x8F04 \<and> V add_vf_state ! 0xF = 1 \<and> V add_vf_state ! 0 = 1 \<and>
   emulate_cycle 0 add_vf_state =
     Inr (Silent, add_vf_state\<lparr>pc := 0x202, V := (V add_vf_state)[0xF := 2]\<rparr>)"
  by (simp add: add_vf_state_def emulate_cycle_def execute_def exec_8_def Let_def fetch_def
      prog_fields prog_memory op_x_def op_y_def timers_def chip8_sizes)

section \<open>The index register stays inside the memory\<close>

text \<open>
  Claim C9.  In every state reachable from construction by \<open>load_rom\<close>, \<open>set_key\<close>,
  \<open>render_screen\<close> and \<open>emulate_cycle\<close> calls, the index register \<open>I\<close> is strictly
  less than 4096: \<open>Annn\<close> masks to 12 bits, \<open>Fx1E\<close> resets \<open>I\<close> to 0 when the sum
  reaches 4096, \<open>Fx29\<close> stores at most \<open>0x50 + 15 * 5\<close>, and construction stores 0.
\<close>

theorem index_in_memory: "reachable s \<Longrightarrow> unat (I s) < CHIP8_MEMORY_SIZE"
proof (induction rule: reachable.induct)
  case construct
  show ?case by (simp add: chip8_sizes)
next
  case (rom s f ok s')
  then show ?case by (auto simp: load_rom_def Let_def split: option.splits if_splits)
next
  case (cycle s rand_value r s')
  then show ?case using emulate_cycle_I by (simp add: chip8_sizes)
next
  case (keys s key_index val r s')
  then show ?case by (auto simp: set_key_def split: if_splits)
next
  case (render s dbg)
  then show ?case by (simp add: render_screen_def)
qed

text \<open>The theorem at the machine that has just executed \<open>AFFF\<close>: there \<open>I\<close> is 4095.\<close>

theorem index_in_memory_witness:
  "reachable bcd_state \<and> unat (I bcd_state) < CHIP8_MEMORY_SIZE \<and> unat (I bcd_state) = 4095"
  using index_in_memory [OF reachable_bcd_state]
  by (simp add: reachable_bcd_state) (simp add: bcd_state_def)

section \<open>The timers at the end of a step\<close>

text \<open>
  Claim C3, as amended.  From a state where the fetch succeeds, a step that comes back from
  the dispatch by \<open>break\<close> decrements the delay timer and the sound timer by one if
  nonzero and leaves them at zero otherwise; the value decremented is the one the dispatch
  left, so after \<open>Fx15\<close> (\<open>Fx18\<close>) it is the \<open>V[x]\<close> just loaded.  A step that reports
  stack underflow (\<open>RET\<close>), stack overflow (\<open>CALL\<close>) or an out-of-range \<open>Fx55\<close>/\<open>Fx65\<close>
  has left by \<open>return\<close> before the timers: both timers keep their values.
\<close>

theorem timers_after_step:
  assumes "unat (pc s) < CHIP8_MEMORY_SIZE - 1" and "emulate_cycle rv s = Inr (r, s')"
  shows "if r = StackUnderflow \<or> r = StackOverflow \<or> r = IPlusXExceededRange
         then delayTimer s' = delayTimer s \<and> soundTimer s' = soundTimer s
         else delayTimer s' =
                (let d = (if fetch s AND 0xF000 = 0xF000 \<and> fetch s AND 0x00FF = 0x0015
                          then V s ! unat (op_x (fetch s)) else delayTimer s)
                 in if d > 0 then d - 1 else d) \<and>
              soundTimer s' =
                (let t = (if fetch s AND 0xF000 = 0xF000 \<and> fetch s AND 0x00FF = 0x0018
                          then V s ! unat (op_x (fetch s)) else soundTimer s)
                 in if t > 0 then t - 1 else t)"
proof -
  from assms obtain c s2 where
    e: "execute rv (fetch s) (s\<lparr>pc := pc s + 2\<rparr>) = Inr (c, r, s2)"
    and s': "s' = (if c = Return then s2 else timers s2)"
    by (auto simp: emulate_cycle_def Let_def split: sum.splits ctl.splits)
  note t = execute_timers [OF e]
  show ?thesis
  proof (cases "c = Return")
    case True
    with t s' show ?thesis by simp
  next
    case False
    with t s' show ?thesis by (simp add: timers_def Let_def)
  qed
qed


text \<open>
  The theorem at two steps of the machine loaded with \<open>6005 F015 00EE\<close>: the \<open>F015\<close>
  step leaves the delay timer at \<open>5 - 1\<close>, and the following \<open>00EE\<close> on the empty stack
  reports the underflow and leaves it at 4.
\<close>

theorem timers_after_step_witness:
  "unat (pc ld_dt_state) < CHIP8_MEMORY_SIZE - 1 \<and>
   emulate_cycle 0 ld_dt_state = Inr (Silent, ret_state) \<and>
   delayTimer ret_state = 4 \<and> soundTimer ret_state = 0 \<and>
   unat (pc ret_state) < CHIP8_MEMORY_SIZE - 1 \<and>
   emulate_cycle 0 ret_state = Inr (StackUnderflow, ret_state\<lparr>pc := 0x206\<rparr>) \<and>
   delayTimer (ret_state\<lparr>pc := 0x206\<rparr>) = delayTimer ret_state"
proof -
  have p1: "unat (pc ld_dt_state) < CHIP8_MEMORY_SIZE - 1"
    by (simp add: ld_dt_state_def chip8_sizes)
  have p2: "unat (pc ret_state) < CHIP8_MEMORY_SIZE - 1"
    by (simp add: ret_state_def ld_dt_state_def chip8_sizes)
  have f: "fetch ld_dt_state = 0xF015"
    by (simp add: ld_dt_state_def fetch_def prog_fields prog_memory)
  have v: "V ld_dt_state ! 0 = 5" "delayTimer ld_dt_state = 0" "soundTimer ld_dt_state = 0"
    by (simp_all add: ld_dt_state_def prog_fields)
  from timers_after_step [OF p1 step_dt]
  have "delayTimer ret_state = 4 \<and> soundTimer ret_state = 0"
    by (simp add: f v op_x_def Let_def)
  moreover from timers_after_step [OF p2 step_ret]
  have "delayTimer (ret_state\<lparr>pc := 0x206\<rparr>) = delayTimer ret_state"
    by simp
  ultimately show ?thesis using p1 p2 step_dt step_ret by simp
qed

text \<open>
  The claim as first stated counts the aborted steps in.  At the reachable state
  \<open>ret_state\<close> (delay timer 4, empty stack, \<open>00EE\<close> at the program counter) the step
  reports the underflow and the delay timer is still 4.
\<close>

theorem timers_after_step_counterexample:
  "reachable ret_state \<and> unat (pc ret_state) < CHIP8_MEMORY_SIZE - 1 \<and>
   fetch ret_state = 0x00EE \<and> sp ret_state = 0 \<and> delayTimer ret_state = 4 \<and>
   emulate_cycle 0 ret_state = Inr (StackUnderflow, ret_state\<lparr>pc := 0x206\<rparr>) \<and>
   delayTimer (ret_state\<lparr>pc := 0x206\<rparr>) = 4"
  using reachable_ret_state step_ret
  by (simp add: ret_state_def ld_dt_state_def fetch_def prog_fields prog_memory chip8_sizes)

section \<open>Memory accesses through the index register\<close>

text \<open>
  Claim C1.  The claim is that sprite draw, BCD write and the bulk transfers each check
  every \<open>I\<close>-relative address before using it.  \<open>Fx55\<close> and \<open>Fx65\<close> do; \<open>Fx33\<close> and
  \<open>draw_sprite\<close> index \<open>memory\<close> unchecked.  After \<open>AFFF\<close> the index register is 4095:
  the following \<open>F033\<close> stores to \<open>memory[4096]\<close> and \<open>memory[4097]\<close>, and the following
  \<open>D002\<close> reads \<open>memory[4096]\<close> for its second row, both past the array.
\<close>

theorem unchecked_index_access:
  "reachable bcd_state \<and> fetch bcd_state = 0xF033 \<and> unat (I bcd_state) = 4095 \<and>
   emulate_cycle 0 bcd_state = Inl OutOfBounds \<and>
   reachable drw_state \<and> fetch drw_state = 0xD002 \<and> unat (I drw_state) = 4095 \<and>
   emulate_cycle 0 drw_state = Inl OutOfBounds"
  using reachable_bcd_state reachable_drw_state bcd_fault drw_fault
  by (simp add: bcd_state_def drw_state_def fetch_def prog_fields prog_memory)

section \<open>SKP and SKNP index the key array by a whole byte\<close>

text \<open>
  Claim C10.  \<open>Ex9E\<close> and \<open>ExA1\<close> read \<open>key[V[x]]\<close> with the full 8-bit \<open>V[x]\<close>; the
  claim is that \<open>V[x] < 16\<close> in every reachable state.  After \<open>60FF\<close> the register \<open>V0\<close>
  is 255, and the following \<open>E09E\<close> (or \<open>E0A1\<close>) reads \<open>key[255]\<close>, past the 16 entries.
\<close>

theorem key_lookup_out_of_bounds:
  "reachable skp_state \<and> fetch skp_state = 0xE09E \<and> V skp_state ! 0 = 255 \<and>
   emulate_cycle 0 skp_state = Inl OutOfBounds \<and>
   reachable sknp_state \<and> fetch sknp_state = 0xE0A1 \<and> V sknp_state ! 0 = 255 \<and>
   emulate_cycle 0 sknp_state = Inl OutOfBounds"
  using reachable_skp_state reachable_sknp_state skp_fault sknp_fault
  by (simp add: skp_state_def sknp_state_def fetch_def prog_fields prog_memory)

section \<open>CLS (00E0)\<close>

text \<open>
  Claim C2.  \<open>00E0\<close> zeroes the framebuffer, but \<open>clear_video_buffer\<close> does not touch
  \<open>draw_flag\<close>.  The machine loaded with \<open>A050 D001 00E0\<close> draws the top row of the
  font digit 0, the driver consumes the redraw flag with \<open>render_screen\<close>, and the
  \<open>00E0\<close> step then clears the lit pixels and leaves \<open>draw_flag\<close> false.
\<close>

theorem cls_leaves_draw_flag:
  "reachable cls_state \<and> fetch cls_state = 0x00E0 \<and> gfx cls_state ! 0 = 1 \<and>
   \<not> draw_flag cls_state \<and>
   emulate_cycle 0 cls_state = Inr (Silent, cls_state\<lparr>pc := 0x206, gfx := replicate 2048 0\<rparr>) \<and>
   \<not> draw_flag (cls_state\<lparr>pc := 0x206, gfx := replicate 2048 0\<rparr>)"
  using reachable_cls_state step_cls
  by (simp add: cls_state_def drawn_state_def fetch_def prog_fields prog_memory)

section \<open>LD Vx, K (Fx0A)\<close>

text \<open>
  Claim C8.  For an instruction \<open>Fx0A\<close>: when no key of the 16-entry input vector is
  pressed, the step ends with the program counter where it started (so the same
  instruction is fetched again) and with every \<open>V\<close> register unchanged: the state after the
  step is the state before it with the timers ticked.  When \<open>k\<close> is the lowest index of a
  pressed key, \<open>V[x]\<close> receives \<open>k\<close> and the program counter is 2 past the instruction.
\<close>

theorem wait_for_key:
  assumes "unat (pc s) < CHIP8_MEMORY_SIZE - 1"
    and "fetch s AND 0xF000 = 0xF000" and "fetch s AND 0x00FF = 0x000A"
  shows "((\<forall>i < CHIP8_KEYBOARD_SIZE. key s ! i = 0) \<longrightarrow>
           emulate_cycle rand_value s = Inr (Silent, timers s)) \<and>
         (k < CHIP8_KEYBOARD_SIZE \<and> key s ! k \<noteq> 0 \<and> (\<forall>j < k. key s ! j = 0) \<longrightarrow>
           emulate_cycle rand_value s =
             Inr (Silent, timers (s\<lparr>pc := pc s + 2, V := (V s)[unat (op_x (fetch s)) := of_nat k]\<rparr>)))"
proof (intro conjI)
  show "(\<forall>i < CHIP8_KEYBOARD_SIZE. key s ! i = 0) \<longrightarrow>
           emulate_cycle rand_value s = Inr (Silent, timers s)"
  proof
    assume "\<forall>i < CHIP8_KEYBOARD_SIZE. key s ! i = 0"
    then have "scan_keys 0 (key s) = None" by (simp add: scan_keys_None)
    with assms show "emulate_cycle rand_value s = Inr (Silent, timers s)"
      by (simp add: emulate_cycle_def execute_def exec_F_def Let_def)
  qed
  show "k < CHIP8_KEYBOARD_SIZE \<and> key s ! k \<noteq> 0 \<and> (\<forall>j < k. key s ! j = 0) \<longrightarrow>
           emulate_cycle rand_value s =
             Inr (Silent, timers (s\<lparr>pc := pc s + 2, V := (V s)[unat (op_x (fetch s)) := of_nat k]\<rparr>))"
  proof
    assume "k < CHIP8_KEYBOARD_SIZE \<and> key s ! k \<noteq> 0 \<and> (\<forall>j < k. key s ! j = 0)"
    then have "scan_keys 0 (key s) = Some k" by (intro scan_keys_Some) auto
    with assms show "emulate_cycle rand_value s =
             Inr (Silent, timers (s\<lparr>pc := pc s + 2, V := (V s)[unat (op_x (fetch s)) := of_nat k]\<rparr>))"
      by (simp add: emulate_cycle_def execute_def exec_F_def Let_def)
  qed
qed

text \<open>
  The theorem at \<open>F10A\<close>, once with no key pressed and once with keys 3 and 7 pressed:
  \<open>V1\<close> receives 3.
\<close>

theorem wait_for_key_witness:
  "unat (pc wait_state) < CHIP8_MEMORY_SIZE - 1 \<and>
   fetch wait_state AND 0xF000 = 0xF000 \<and> fetch wait_state AND 0x00FF = 0x000A \<and>
   key wait_state = replicate 16 0 \<and>
   emulate_cycle 0 wait_state = Inr (Silent, timers wait_state) \<and>
   unat (pc pressed_state) < CHIP8_MEMORY_SIZE - 1 \<and>
   fetch pressed_state AND 0xF000 = 0xF000 \<and> fetch pressed_state AND 0x00FF = 0x000A \<and>
   key pressed_state = (replicate 16 0)[3 := 1, 7 := 1] \<and>
   emulate_cycle 0 pressed_state =
     Inr (Silent, timers (pressed_state\<lparr>pc := 0x202, V := (V pressed_state)[1 := 3]\<rparr>))"
proof -
  have fw: "fetch wait_state = 0xF10A"
    by (simp add: wait_state_def fetch_def prog_fields prog_memory)
  have fp: "fetch pressed_state = 0xF10A"
    by (simp add: pressed_state_def fetch_def prog_fields prog_memory)
  have hw: "unat (pc wait_state) < CHIP8_MEMORY_SIZE - 1"
    "fetch wait_state AND 0xF000 = 0xF000" "fetch wait_state AND 0x00FF = 0x000A"
    by (simp_all add: fw) (simp add: wait_state_def prog_fields chip8_sizes)
  have hp: "unat (pc pressed_state) < CHIP8_MEMORY_SIZE - 1"
    "fetch pressed_state AND 0xF000 = 0xF000" "fetch pressed_state AND 0x00FF = 0x000A"
    by (simp_all add: fp) (simp add: pressed_state_def prog_fields chip8_sizes)
  have kw: "\<forall>i < CHIP8_KEYBOARD_SIZE. key wait_state ! i = 0"
    by (simp add: wait_state_def prog_fields chip8_sizes)
  have kp: "3 < CHIP8_KEYBOARD_SIZE \<and> key pressed_state ! 3 \<noteq> 0 \<and>
            (\<forall>j < 3. key pressed_state ! j = 0)"
    by (simp add: pressed_state_def chip8_sizes)
  have pp: "pc pressed_state + 2 = 0x202"
    by (simp add: pressed_state_def prog_fields)
  from wait_for_key [OF hw, of 0 0] kw
  have 1: "emulate_cycle 0 wait_state = Inr (Silent, timers wait_state)" by blast
  from wait_for_key [OF hp, of 0 3] kp
  have 2: "emulate_cycle 0 pressed_state =
     Inr (Silent, timers (pressed_state\<lparr>pc := 0x202, V := (V pressed_state)[1 := 3]\<rparr>))"
    by (simp add: fp op_x_def pp)
  have k0: "key wait_state = replicate 16 0"
    by (simp add: wait_state_def prog_fields)
  have k3: "key pressed_state = (replicate 16 0)[3 := 1, 7 := 1]"
    by (simp add: pressed_state_def)
  from hw hp k0 k3 1 2 show ?thesis by blast
qed

section \<open>LD [I], Vx and LD Vx, [I] (Fx55, Fx65)\<close>

text \<open>
  Claim C5.  For an instruction \<open>Fx55\<close> or \<open>Fx65\<close>: with \<open>I + x \<ge> 4096\<close> the step
  reports the out-of-range condition and returns; the state it leaves is the state before
  the step with only the program counter advanced, so no memory byte and no register is
  written.  With \<open>I + x < 4096\<close>, \<open>Fx55\<close> replaces \<open>memory[I..I+x]\<close> by \<open>V0..Vx\<close> and
  \<open>Fx65\<close> replaces \<open>V0..Vx\<close> by \<open>memory[I..I+x]\<close>, \<open>x + 1\<close> cells in each case, and
  nothing else but the program counter and the timer tick changes.
\<close>

theorem bulk_transfer:
  assumes "valid_state s" and "unat (pc s) < CHIP8_MEMORY_SIZE - 1"
    and "fetch s AND 0xF000 = 0xF000"
    and "fetch s AND 0x00FF = 0x0055 \<or> fetch s AND 0x00FF = 0x0065"
  shows "emulate_cycle rand_value s =
          (if unat (I s) + unat (op_x (fetch s)) \<ge> CHIP8_MEMORY_SIZE
           then Inr (IPlusXExceededRange, s\<lparr>pc := pc s + 2\<rparr>)
           else if fetch s AND 0x00FF = 0x0055
           then Inr (Silent, timers (s\<lparr>pc := pc s + 2,
                  memory := take (unat (I s)) (memory s) @
                            take (Suc (unat (op_x (fetch s)))) (V s) @
                            drop (unat (I s) + Suc (unat (op_x (fetch s)))) (memory s)\<rparr>))
           else Inr (Silent, timers (s\<lparr>pc := pc s + 2,
                  V := take (Suc (unat (op_x (fetch s)))) (drop (unat (I s)) (memory s)) @
                       drop (Suc (unat (op_x (fetch s)))) (V s)\<rparr>)))"
proof -
  let ?x = "unat (op_x (fetch s))"
  have len: "length (memory s) = 4096" "length (V s) = 16"
    using assms(1) by (simp_all add: valid_state_def chip8_sizes)
  have xb: "?x < 16" by (rule op_x_bound)
  show ?thesis
  proof (cases "unat (I s) + ?x \<ge> CHIP8_MEMORY_SIZE")
    case True
    from assms(4) have "emulate_cycle rand_value s = Inr (IPlusXExceededRange, s\<lparr>pc := pc s + 2\<rparr>)"
    proof
      assume "fetch s AND 0x00FF = 0x0055"
      with assms(2,3) True show ?thesis
        by (simp add: emulate_cycle_def execute_def exec_F_def Let_def)
    next
      assume "fetch s AND 0x00FF = 0x0065"
      with assms(2,3) True show ?thesis
        by (simp add: emulate_cycle_def execute_def exec_F_def Let_def)
    qed
    with True show ?thesis by simp
  next
    case False
    then have a: "unat (I s) + Suc ?x \<le> length (memory s)" "Suc ?x \<le> length (V s)"
      using len xb by (simp_all add: chip8_sizes)
    from assms(4) show ?thesis
    proof
      assume op: "fetch s AND 0x00FF = 0x0055"
      with assms(2,3) False have "emulate_cycle rand_value s =
          Inr (Silent, timers (s\<lparr>pc := pc s + 2,
            memory := fold (\<lambda>i m. m[unat (I s) + i := V s ! i]) [0..<Suc ?x] (memory s)\<rparr>))"
        by (simp add: emulate_cycle_def execute_def exec_F_def Let_def del: upt_Suc)
      then have "emulate_cycle rand_value s =
          Inr (Silent, timers (s\<lparr>pc := pc s + 2,
            memory := take (unat (I s)) (memory s) @ take (Suc ?x) (V s) @
                      drop (unat (I s) + Suc ?x) (memory s)\<rparr>))"
        by (simp only: fold_dump [OF a])
      with False op show ?thesis by simp
    next
      assume op: "fetch s AND 0x00FF = 0x0065"
      with assms(2,3) False have "emulate_cycle rand_value s =
          Inr (Silent, timers (s\<lparr>pc := pc s + 2,
            V := fold (\<lambda>i v. v[i := memory s ! (unat (I s) + i)]) [0..<Suc ?x] (V s)\<rparr>))"
        by (simp add: emulate_cycle_def execute_def exec_F_def Let_def del: upt_Suc)
      then have "emulate_cycle rand_value s =
          Inr (Silent, timers (s\<lparr>pc := pc s + 2,
            V := take (Suc ?x) (drop (unat (I s)) (memory s)) @ drop (Suc ?x) (V s)\<rparr>))"
        by (simp only: fold_load [OF a])
      with False op show ?thesis by simp
    qed
  qed
qed

text \<open>
  The theorem at three machines: \<open>F155\<close> with \<open>I = 4095\<close> (aborted), \<open>F155\<close> with
  \<open>I = 0x300\<close>, \<open>V0 = 7\<close>, \<open>V1 = 9\<close>, and \<open>F165\<close> with \<open>I = 0x200\<close>, which loads the two
  bytes of the instruction itself.
\<close>

theorem bulk_transfer_witness:
  "valid_state dump_abort_state \<and> unat (pc dump_abort_state) < CHIP8_MEMORY_SIZE - 1 \<and>
   fetch dump_abort_state AND 0xF000 = 0xF000 \<and> fetch dump_abort_state AND 0x00FF = 0x0055 \<and>
   emulate_cycle 0 dump_abort_state =
     Inr (IPlusXExceededRange, dump_abort_state\<lparr>pc := pc dump_abort_state + 2\<rparr>) \<and>
   valid_state dump_state \<and> unat (pc dump_state) < CHIP8_MEMORY_SIZE - 1 \<and>
   fetch dump_state AND 0xF000 = 0xF000 \<and> fetch dump_state AND 0x00FF = 0x0055 \<and>
   (\<exists>s'. emulate_cycle 0 dump_state = Inr (Silent, s') \<and>
         memory s' ! 0x2FF = memory dump_state ! 0x2FF \<and>
         memory s' ! 0x300 = 7 \<and> memory s' ! 0x301 = 9 \<and>
         memory s' ! 0x302 = memory dump_state ! 0x302) \<and>
   valid_state load_state \<and> unat (pc load_state) < CHIP8_MEMORY_SIZE - 1 \<and>
   fetch load_state AND 0xF000 = 0xF000 \<and> fetch load_state AND 0x00FF = 0x0065 \<and>
   (\<exists>s'. emulate_cycle 0 load_state = Inr (Silent, s') \<and>
         V s' ! 0 = 0xF1 \<and> V s' ! 1 = 0x65 \<and> V s' ! 2 = V load_state ! 2)"
proof -
  have fa: "fetch dump_abort_state = 0xF155"
    by (simp add: dump_abort_state_def fetch_def prog_fields prog_memory)
  have fd: "fetch dump_state = 0xF155"
    by (simp add: dump_state_def fetch_def prog_fields prog_memory)
  have fl: "fetch load_state = 0xF165"
    by (simp add: load_state_def fetch_def prog_fields prog_memory)
  have ha: "valid_state dump_abort_state" "unat (pc dump_abort_state) < CHIP8_MEMORY_SIZE - 1"
    "fetch dump_abort_state AND 0xF000 = 0xF000"
    by (simp_all add: fa) (simp_all add: dump_abort_state_def valid_state_def prog_fields chip8_sizes)
  have hd: "valid_state dump_state" "unat (pc dump_state) < CHIP8_MEMORY_SIZE - 1"
    "fetch dump_state AND 0xF000 = 0xF000"
    by (simp_all add: fd) (simp_all add: dump_state_def valid_state_def prog_fields chip8_sizes)
  have hl: "valid_state load_state" "unat (pc load_state) < CHIP8_MEMORY_SIZE - 1"
    "fetch load_state AND 0xF000 = 0xF000"
    by (simp_all add: fl) (simp_all add: load_state_def valid_state_def prog_fields chip8_sizes)
  have sa: "fetch dump_abort_state AND 0x00FF = 0x0055" by (simp add: fa)
  have sd: "fetch dump_state AND 0x00FF = 0x0055" by (simp add: fd)
  have sl: "fetch load_state AND 0x00FF = 0x0065" by (simp add: fl)
  have 1: "emulate_cycle 0 dump_abort_state =
     Inr (IPlusXExceededRange, dump_abort_state\<lparr>pc := pc dump_abort_state + 2\<rparr>)"
    using bulk_transfer [OF ha disjI1 [OF sa], of 0]
    by (simp add: fa op_x_def) (simp add: dump_abort_state_def chip8_sizes)
  have 2: "\<exists>s'. emulate_cycle 0 dump_state = Inr (Silent, s') \<and>
         memory s' ! 0x2FF = memory dump_state ! 0x2FF \<and>
         memory s' ! 0x300 = 7 \<and> memory s' ! 0x301 = 9 \<and>
         memory s' ! 0x302 = memory dump_state ! 0x302"
    using bulk_transfer [OF hd disjI1 [OF sd], of 0]
    by (simp add: fd op_x_def)
       (simp add: dump_state_def chip8_sizes prog_fields nth_append)
  have 3: "\<exists>s'. emulate_cycle 0 load_state = Inr (Silent, s') \<and>
         V s' ! 0 = 0xF1 \<and> V s' ! 1 = 0x65 \<and> V s' ! 2 = V load_state ! 2"
    using bulk_transfer [OF hl disjI2 [OF sl], of 0]
    by (simp add: fl op_x_def)
       (simp add: load_state_def chip8_sizes prog_fields prog_memory nth_append)
  from ha hd hl sa sd sl 1 2 3 show ?thesis by blast
qed

section \<open>CALL (2nnn) on a full stack\<close>

text \<open>
  Claim C6.  Let the next \<open>length rvs + 1\<close> instructions executed from \<open>s\<close> all be
  \<open>CALL\<close>s, with \<open>length rvs\<close> free stack slots in \<open>s\<close>.  The first \<open>length rvs\<close> calls run
  without a report and fill the stack with their return addresses above the entries that
  were there; the next \<open>CALL\<close> finds the stack pointer at capacity 16, reports the stack
  overflow, and leaves a state that differs from the one before it in the program counter
  only: the 16 stored return addresses, the stack pointer, the \<open>V\<close> registers and \<open>I\<close> are
  unchanged.  With \<open>rvs = []\<close> this is the single \<open>CALL\<close> at capacity; with an empty stack
  and 16 elements in \<open>rvs\<close> it is 17 calls in a row.
\<close>

theorem call_overflow:
  assumes "valid_state s" and "calls_in_a_row (rvs @ [rand_value]) s"
    and "unat (sp s) + length rvs = CHIP8_STACK_SIZE"
  shows "\<exists>s16. run rvs s = Inr (replicate (length rvs) Silent, s16) \<and>
           unat (sp s16) = CHIP8_STACK_SIZE \<and>
           stack s16 = take (unat (sp s)) (stack s) @ return_addresses rvs s \<and>
           emulate_cycle rand_value s16 = Inr (StackOverflow, s16\<lparr>pc := pc s16 + 2\<rparr>)"
  using assms
proof (induction rvs arbitrary: s)
  case Nil
  then show ?case by (simp add: call_at_capacity valid_state_def)
next
  case (Cons rv rvs)
  let ?s1 = "timers (s\<lparr>stack := (stack s)[unat (sp s) := pc s + 2], sp := sp s + 1,
                        pc := op_nnn (fetch s)\<rparr>)"
  from Cons.prems(2) have c: "unat (pc s) < CHIP8_MEMORY_SIZE - 1" "fetch s AND 0xF000 = 0x2000"
    by simp_all
  from Cons.prems(3) have lt: "unat (sp s) < CHIP8_STACK_SIZE" by simp
  have step: "emulate_cycle rv s = Inr (Silent, ?s1)"
    by (rule call_below_capacity [OF c lt])
  have sp1: "unat (sp ?s1) = Suc (unat (sp s))" using sp_succ [OF lt] by simp
  have v1: "valid_state ?s1" using Cons.prems(1) by (simp add: valid_state_def)
  have c1: "calls_in_a_row (rvs @ [rand_value]) ?s1" using Cons.prems(2) step by simp
  have n1: "unat (sp ?s1) + length rvs = CHIP8_STACK_SIZE" using Cons.prems(3) sp1 by simp
  from Cons.IH [OF v1 c1 n1] obtain s16 where
    r: "run rvs ?s1 = Inr (replicate (length rvs) Silent, s16)"
    and f: "unat (sp s16) = CHIP8_STACK_SIZE"
    and k: "stack s16 = take (unat (sp ?s1)) (stack ?s1) @ return_addresses rvs ?s1"
    and o: "emulate_cycle rand_value s16 = Inr (StackOverflow, s16\<lparr>pc := pc s16 + 2\<rparr>)"
    by blast
  have "unat (sp s) < length (stack s)"
    using Cons.prems(1) lt by (simp add: valid_state_def)
  then have "take (unat (sp ?s1)) (stack ?s1) = take (unat (sp s)) (stack s) @ [pc s + 2]"
    using sp1 by (simp add: take_Suc_update)
  with k step have k': "stack s16 = take (unat (sp s)) (stack s) @ return_addresses (rv # rvs) s"
    by simp
  from step r have "run (rv # rvs) s = Inr (replicate (length (rv # rvs)) Silent, s16)"
    by simp
  with f k' o show ?case by blast
qed


text \<open>
  The theorem at the machine loaded with \<open>2200\<close>, a \<open>CALL 0x200\<close> at \<open>0x200\<close> that
  calls itself: 16 calls push the return address \<open>0x202\<close>, the 17th reports the overflow.
\<close>

theorem call_overflow_witness:
  "valid_state call_loop \<and>
   calls_in_a_row (sixteen_rands @ [0]) call_loop \<and>
   unat (sp call_loop) + length sixteen_rands = CHIP8_STACK_SIZE \<and>
   (\<exists>s16. run sixteen_rands call_loop = Inr (replicate 16 Silent, s16) \<and>
          unat (sp s16) = 16 \<and>
          stack s16 = [0x202, 0x202, 0x202, 0x202, 0x202, 0x202, 0x202, 0x202,
                       0x202, 0x202, 0x202, 0x202, 0x202, 0x202, 0x202, 0x202] \<and>
          emulate_cycle 0 s16 = Inr (StackOverflow, s16\<lparr>pc := pc s16 + 2\<rparr>))"
proof -
  have v: "valid_state call_loop"
    by (simp add: call_loop_def valid_state_def prog_fields chip8_sizes)
  have c: "calls_in_a_row (sixteen_rands @ [0]) call_loop"
    by (simp add: call_loop_def sixteen_rands_def step_simps)
  have n: "unat (sp call_loop) + length sixteen_rands = CHIP8_STACK_SIZE"
    by (simp add: call_loop_def sixteen_rands_def prog_fields chip8_sizes)
  have a: "return_addresses sixteen_rands call_loop =
     [0x202, 0x202, 0x202, 0x202, 0x202, 0x202, 0x202, 0x202,
      0x202, 0x202, 0x202, 0x202, 0x202, 0x202, 0x202, 0x202]"
    by (simp add: call_loop_def sixteen_rands_def step_simps)
  have z: "unat (sp call_loop) = 0" by (simp add: call_loop_def prog_fields)
  have l: "length sixteen_rands = 16" by (simp add: sixteen_rands_def)
  from call_overflow [OF v c n] obtain s16 where
    r: "run sixteen_rands call_loop = Inr (replicate (length sixteen_rands) Silent, s16)"
    and f: "unat (sp s16) = CHIP8_STACK_SIZE"
    and k: "stack s16 =
              take (unat (sp call_loop)) (stack call_loop) @ return_addresses sixteen_rands call_loop"
    and o: "emulate_cycle 0 s16 = Inr (StackOverflow, s16\<lparr>pc := pc s16 + 2\<rparr>)"
    by blast
  from r have r': "run sixteen_rands call_loop = Inr (replicate 16 Silent, s16)"
    by (simp only: l)
  from f have f': "unat (sp s16) = 16" by (simp add: chip8_sizes)
  from k have k': "stack s16 = [0x202, 0x202, 0x202, 0x202, 0x202, 0x202, 0x202, 0x202,
                       0x202, 0x202, 0x202, 0x202, 0x202, 0x202, 0x202, 0x202]"
    by (simp only: a z take_0 append_Nil)
  from v c n r' f' k' o show ?thesis by blast
qed

section \<open>Drawing the same sprite twice\<close>

text \<open>
  Claim C7.  For every framebuffer, coordinates \<open>x_coord\<close>, \<open>y_coord\<close>, height and
  sprite bytes: if \<open>draw_sprite\<close> returns the state \<open>s1\<close>, then the same call on \<open>s1\<close>
  (the draw writes neither \<open>I\<close> nor the memory, so the sprite is the same) returns a state
  whose framebuffer is the one before the first draw, and in which \<open>VF\<close> is 1 if and only
  if the first draw turned at least one pixel from 0 to 1.
\<close>

theorem draw_twice:
  assumes "valid_state s" and "draw_sprite x_coord y_coord height s = Inr s1"
  shows "\<exists>s2. draw_sprite x_coord y_coord height s1 = Inr s2 \<and> gfx s2 = gfx s \<and>
           (V s2 ! 0xF = 1 \<longleftrightarrow>
            (\<exists>p < CHIP8_VIDEO_BUFFER_SIZE. gfx s ! p = 0 \<and> gfx s1 ! p = 1))"
proof -
  let ?x = "x_coord mod 64" and ?y = "y_coord mod 32"
  let ?s0 = "s\<lparr>V := (V s)[0xF := 0]\<rparr>"
  let ?t0 = "s1\<lparr>V := (V s1)[0xF := 0]\<rparr>"
  let ?n = "min (unat height) (32 - unat ?y)"
  let ?ks = "List.product [0..<?n] [0..<8]"
  let ?idx = "pixel_index ?x ?y"
  let ?sbit = "sprite_bit (memory s) (unat (I s))"
  have lenV: "length (V s) = 16" and leng: "length (gfx s) = 2048"
    using assms(1) by (simp_all add: valid_state_def chip8_sizes)
  from assms(2) obtain r1 where
    d1: "draw_rows 0 height ?x ?y ?s0 = Inr r1" and s1: "s1 = r1\<lparr>draw_flag := True\<rparr>"
    by (auto simp: draw_sprite_def split: sum.splits)
  note f1 = draw_sprite_fields [OF assms(2)]
  from d1 have v1: "view r1 = fold (xor_step ?idx ?sbit) ?ks (gfx s, 0)"
    using view_draw_rows [OF d1] lenV by (simp add: view_def)
  have "I ?t0 = I ?s0" using f1 by simp
  from draw_rows_again [OF d1 this] obtain r2 where
    d2: "draw_rows 0 height ?x ?y ?t0 = Inr r2" by blast
  have lenV1: "length (V ?t0) = 16" using f1 lenV by simp
  have v2: "view r2 = fold (xor_step ?idx ?sbit) ?ks (gfx s1, 0)"
    using view_draw_rows [OF d2 lenV1] f1 lenV by (simp add: view_def)
  have "gfx s1 = fst (view r1)" using s1 by (simp add: view_def)
  then have g1: "gfx s1 = fst (fold (xor_step ?idx ?sbit) ?ks (gfx s, 0))"
    by (simp only: v1)
  have d: "distinct ?ks" by (simp add: distinct_product)
  have i: "inj_on ?idx (set ?ks)" by (rule pixel_index_inj) simp
  have b: "\<forall>k\<in>set ?ks. ?idx k < length (gfx s)"
    using pixel_index_bound leng by simp
  have z: "\<forall>k\<in>set ?ks. ?sbit k = 0 \<or> ?sbit k = 1"
    using sprite_bit_cases by blast
  note tw = fold_xor_twice [OF d i b z, folded g1]
  let ?s2 = "r2\<lparr>draw_flag := True\<rparr>"
  have "draw_sprite x_coord y_coord height s1 = Inr ?s2"
    using d2 by (simp add: draw_sprite_def)
  moreover have "gfx ?s2 = fst (view r2)" by (simp add: view_def)
  then have "gfx ?s2 = gfx s" by (simp only: v2 tw(1))
  moreover have "V ?s2 ! 0xF = snd (view r2)" by (simp add: view_def)
  then have "V ?s2 ! 0xF = 1 \<longleftrightarrow>
      (\<exists>p < CHIP8_VIDEO_BUFFER_SIZE. gfx s ! p = 0 \<and> gfx s1 ! p = 1)"
    by (simp only: v2 tw(2) leng chip8_sizes) simp
  ultimately show ?thesis by blast
qed

text \<open>
  The theorem at the top row of the font digit 0 (byte \<open>0xF0\<close> at \<open>I = 0x50\<close>) drawn at
  \<open>(0, 0)\<close> on the blank screen: the first draw lights pixels 0 to 3, the second draw
  restores the blank screen and reports the collision.
\<close>

theorem draw_twice_witness:
  "valid_state sprite_state \<and> draw_sprite 0 0 1 sprite_state = Inr drawn_state \<and>
   gfx sprite_state ! 0 = 0 \<and> gfx drawn_state ! 0 = 1 \<and>
   (\<exists>s2. draw_sprite 0 0 1 drawn_state = Inr s2 \<and> gfx s2 = gfx sprite_state \<and>
         V s2 ! 0xF = 1)"
proof -
  have v: "valid_state sprite_state"
    by (simp add: sprite_state_def valid_state_def prog_fields chip8_sizes)
  have p: "gfx sprite_state ! 0 = 0" "gfx drawn_state ! 0 = 1"
    by (simp_all add: sprite_state_def drawn_state_def prog_fields)
  from draw_twice [OF v draw_sprite_state] obtain s2 where
    d: "draw_sprite 0 0 1 drawn_state = Inr s2" and g: "gfx s2 = gfx sprite_state"
    and f: "V s2 ! 0xF = 1 \<longleftrightarrow>
            (\<exists>p < CHIP8_VIDEO_BUFFER_SIZE. gfx sprite_state ! p = 0 \<and> gfx drawn_state ! p = 1)"
    by blast
  have "0 < CHIP8_VIDEO_BUFFER_SIZE" by (simp add: chip8_sizes)
  with p have "\<exists>p < CHIP8_VIDEO_BUFFER_SIZE. gfx sprite_state ! p = 0 \<and> gfx drawn_state ! p = 1"
    by blast
  with f have "V s2 ! 0xF = 1" by blast
  with v draw_sprite_state p d g show ?thesis by blast
qed

end
